theory Spec2Isabelle
  imports Main "HOL-Library.Char_ord" "HOL-Library.List_Lexorder"
begin

section \<open>Data model\<close>

text \<open>
  The ApplicationSet reconciler of \<^verbatim>\<open>applicationset/controllers/applicationset_controller.go\<close>.
  Go strings are \<^typ>\<open>string\<close> (byte lists, ordered bytewise as Go's \<^verbatim>\<open><\<close> on strings),
  Go's \<^verbatim>\<open>int\<close> is \<^typ>\<open>int\<close> (every integer below is bounded by the length of a list),
  a \<^verbatim>\<open>map[string]T\<close> is a partial function, a pointer that may be nil is an option.
  A nil slice or map and an empty one are the same value here, except for
  \<^verbatim>\<open>TargetRevisions\<close>, which the code compares with \<^verbatim>\<open>reflect.DeepEqual\<close>.
  Times are whole seconds.
\<close>

type_synonym time = int

datatype error = ErrNotFound | ErrConflict | ErrOther string | ErrWrap string error

fun IsNotFound :: "error \<Rightarrow> bool" where
  "IsNotFound ErrNotFound = True"
| "IsNotFound (ErrWrap m e) = IsNotFound e"
| "IsNotFound e = False"

fun IsConflict :: "error \<Rightarrow> bool" where
  "IsConflict ErrConflict = True"
| "IsConflict (ErrWrap m e) = IsConflict e"
| "IsConflict e = False"

record OwnerReference =
  APIVersion :: string
  Kind :: string
  RefName :: string
  Controller :: "bool option"

record ObjectMeta =
  Name :: string
  Namespace :: string
  Labels :: "string \<rightharpoonup> string"
  Annotations :: "string \<rightharpoonup> string"
  Finalizers :: "string list"
  OwnerReferences :: "OwnerReference list"
  DeletionTimestamp :: "time option"

record ApplicationDestination =
  Server :: string
  DestName :: string

text \<open>
  An Application: the embedded object metadata, the destination of its spec, and the parts
  of its status the controller reads. \<open>OperationState\<close> is the phase of
  \<^verbatim>\<open>Status.OperationState\<close> when that pointer is set. \<open>Revisions\<close> is the value of
  \<^verbatim>\<open>Status.GetRevisions()\<close>, a method of the API package (\<open>None\<close> is Go's nil slice).
\<close>

record Application = ObjectMeta +
  Destination :: ApplicationDestination
  HealthStatus :: string
  SyncStatus :: string
  OperationState :: "string option"
  Revisions :: "string list option"

text \<open>
  \<^verbatim>\<open>intstr.IntOrString\<close>: an integer (32 bits in the library) or a string.
\<close>

datatype IntOrString = IntVal int | StrVal string

record ApplicationMatchExpression =
  Key :: string
  Operator :: string
  Values :: "string list"

record ApplicationSetRolloutStep =
  MatchExpressions :: "ApplicationMatchExpression list"
  MaxUpdate :: "IntOrString option"

text \<open>
  \<open>RollingSync\<close> is the pointer \<^verbatim>\<open>Strategy.RollingSync\<close>; when set it holds the \<^verbatim>\<open>Steps\<close>.
\<close>

record ApplicationSetStrategy =
  StrategyType :: string
  RollingSync :: "ApplicationSetRolloutStep list option"
  DeletionOrder :: string

record ApplicationSetApplicationStatus =
  Application :: string
  LastTransitionTime :: "time option"
  Message :: string
  Status :: string
  Step :: string
  TargetRevisions :: "string list option"

record ApplicationSetCondition =
  Type :: string
  CondMessage :: string
  CondLastTransitionTime :: "time option"
  Reason :: string
  CondStatus :: string

text \<open>
  An ApplicationSet: metadata, \<^verbatim>\<open>Spec.Strategy\<close>, the other fields of the spec (generators,
  template, policies) as one value of a type parameter, and the two lists of its status.
\<close>

record 's ApplicationSet = ObjectMeta +
  Strategy :: "ApplicationSetStrategy option"
  SpecOther :: 's
  Conditions :: "ApplicationSetCondition list"
  ApplicationStatus :: "ApplicationSetApplicationStatus list"

section \<open>Strategy predicates\<close>

definition isRollingSyncStrategy :: "('s, 'z) ApplicationSet_scheme \<Rightarrow> bool" where
  "isRollingSyncStrategy appset =
     (case Strategy appset of
        None \<Rightarrow> False
      | Some st \<Rightarrow> StrategyType st = ''RollingSync'' \<and> RollingSync st \<noteq> None)"

text \<open>The steps of the rollout, read as \<^verbatim>\<open>appset.Spec.Strategy.RollingSync.Steps\<close>.\<close>

definition rollingSyncSteps :: "('s, 'z) ApplicationSet_scheme \<Rightarrow> ApplicationSetRolloutStep list" where
  "rollingSyncSteps appset =
     (case Strategy appset of
        None \<Rightarrow> []
      | Some st \<Rightarrow> (case RollingSync st of None \<Rightarrow> [] | Some steps \<Rightarrow> steps))"

definition progressiveSyncsRollingSyncStrategyEnabled :: "('s, 'z) ApplicationSet_scheme \<Rightarrow> bool" where
  "progressiveSyncsRollingSyncStrategyEnabled appset =
     (isRollingSyncStrategy appset \<and> length (rollingSyncSteps appset) > 0)"

section \<open>Step assignment\<close>

definition labelMatchedExpression :: "string \<Rightarrow> ApplicationMatchExpression \<Rightarrow> bool" where
  "labelMatchedExpression val matchExpression =
     (if Operator matchExpression \<noteq> ''In'' \<and> Operator matchExpression \<noteq> ''NotIn'' then False
      else if val \<in> set (Values matchExpression) then Operator matchExpression = ''In''
      else Operator matchExpression = ''NotIn'')"

text \<open>
  The loop over \<^verbatim>\<open>step.MatchExpressions\<close> in \<^verbatim>\<open>buildAppDependencyList\<close>: the value of
  \<^verbatim>\<open>selected\<close> when the loop ends or breaks.
\<close>

fun stepSelected :: "(string \<rightharpoonup> string) \<Rightarrow> ApplicationMatchExpression list \<Rightarrow> bool" where
  "stepSelected labels [] = True"
| "stepSelected labels (matchExpression # rest) =
     (case labels (Key matchExpression) of
        Some val \<Rightarrow>
          (if \<not> labelMatchedExpression val matchExpression then False
           else stepSelected labels rest)
      | None \<Rightarrow>
          (if Operator matchExpression = ''In'' then False
           else stepSelected labels rest))"

text \<open>
  The loop over the steps for one application, from step index \<open>i\<close>: the application's name
  is appended to the list of every step that selects it, and the step map keeps the first.
\<close>

fun stepsLoop ::
  "Application \<Rightarrow> ApplicationSetRolloutStep list \<Rightarrow> nat \<Rightarrow>
   string list list \<times> (string \<rightharpoonup> int) \<Rightarrow> string list list \<times> (string \<rightharpoonup> int)" where
  "stepsLoop app [] i acc = acc"
| "stepsLoop app (step # rest) i (appDependencyList, appStepMap) =
     (if stepSelected (Labels app) (MatchExpressions step) then
        stepsLoop app rest (Suc i)
          (appDependencyList[i := appDependencyList ! i @ [Name app]],
           (case appStepMap (Name app) of
              Some val \<Rightarrow> appStepMap
            | None \<Rightarrow> appStepMap(Name app \<mapsto> int i)))
      else stepsLoop app rest (Suc i) (appDependencyList, appStepMap))"

definition buildAppDependencyList ::
  "('s, 'z) ApplicationSet_scheme \<Rightarrow> Application list \<Rightarrow> string list list \<times> (string \<rightharpoonup> int)" where
  "buildAppDependencyList applicationSet applications =
     (if (case Strategy applicationSet of
            None \<Rightarrow> True
          | Some st \<Rightarrow> StrategyType st = '''' \<or> StrategyType st = ''AllAtOnce'')
      then ([], Map.empty)
      else
        let steps = (if progressiveSyncsRollingSyncStrategyEnabled applicationSet
                     then rollingSyncSteps applicationSet else [])
        in foldl (\<lambda>acc app. stepsLoop app steps 0 acc)
             (replicate (length steps) [], Map.empty) applications)"

definition getAppStep :: "string \<Rightarrow> (string \<rightharpoonup> int) \<Rightarrow> int" where
  "getAppStep appName appStepMap =
     (case appStepMap appName of Some appStep \<Rightarrow> appStep + 1 | None \<Rightarrow> - 1)"

section \<open>Per-application rollout status\<close>

text \<open>Go's \<^verbatim>\<open>strconv.Itoa\<close>: the decimal digits, with a minus sign for a negative number.\<close>

definition digitChar :: "nat \<Rightarrow> char" where
  "digitChar d = ''0123456789'' ! d"

fun natDigits :: "nat \<Rightarrow> string" where
  "natDigits n = (if n < 10 then [digitChar n] else natDigits (n div 10) @ [digitChar (n mod 10)])"

declare natDigits.simps [simp del]

definition Itoa :: "int \<Rightarrow> string" where
  "Itoa i = (if i < 0 then CHR ''-'' # natDigits (nat (- i)) else natDigits (nat i))"

fun findIndexFrom :: "ApplicationSetApplicationStatus list \<Rightarrow> string \<Rightarrow> int \<Rightarrow> int" where
  "findIndexFrom [] application i = - 1"
| "findIndexFrom (s # rest) application i =
     (if Application s = application then i else findIndexFrom rest application (i + 1))"

definition findApplicationStatusIndex :: "ApplicationSetApplicationStatus list \<Rightarrow> string \<Rightarrow> int" where
  "findApplicationStatusIndex appStatuses application = findIndexFrom appStatuses application 0"

definition statusStrings :: "Application \<Rightarrow> string \<times> string \<times> string" where
  "statusStrings app =
     (HealthStatus app, SyncStatus app,
      (case OperationState app of None \<Rightarrow> [] | Some phase \<Rightarrow> phase))"

definition isApplicationHealthy :: "Application \<Rightarrow> bool" where
  "isApplicationHealthy app =
     (case statusStrings app of
        (healthStatusString, syncStatusString, operationPhaseString) \<Rightarrow>
          healthStatusString = ''Healthy'' \<and> syncStatusString \<noteq> ''OutOfSync'' \<and>
          (operationPhaseString = ''Succeeded'' \<or> operationPhaseString = []))"

text \<open>
  What every transition of \<^verbatim>\<open>updateApplicationSetApplicationStatus\<close> writes: the time, the
  new status, the message and the step number of the application.
\<close>

definition transitionTo ::
  "time \<Rightarrow> (string \<rightharpoonup> int) \<Rightarrow> string \<Rightarrow> string \<Rightarrow>
   ApplicationSetApplicationStatus \<Rightarrow> ApplicationSetApplicationStatus" where
  "transitionTo now appStepMap status message s =
     s\<lparr>LastTransitionTime := Some now, Status := status, Message := message,
       Step := Itoa (getAppStep (Application s) appStepMap)\<rparr>"

text \<open>
  The body of the loop of \<^verbatim>\<open>updateApplicationSetApplicationStatus\<close> for one application,
  one definition for each of the source's consecutive statements on \<^verbatim>\<open>currentAppStatus\<close>.
  First the entry found in the recorded list, or the default one.
\<close>

definition currentOrDefault ::
  "time \<Rightarrow> ('s, 'z) ApplicationSet_scheme \<Rightarrow> (string \<rightharpoonup> int) \<Rightarrow> Application \<Rightarrow>
   ApplicationSetApplicationStatus" where
  "currentOrDefault now applicationSet appStepMap app =
     (let idx = findApplicationStatusIndex (ApplicationStatus applicationSet) (Name app) in
      if idx = - 1 then
        \<lparr>Application = Name app, LastTransitionTime = Some now,
         Message = ''No Application status found, defaulting status to Waiting.'',
         Status = ''Waiting'', Step = Itoa (getAppStep (Name app) appStepMap),
         TargetRevisions = None\<rparr>
      else
        let current = ApplicationStatus applicationSet ! nat idx in
        if TargetRevisions current \<noteq> Revisions app
        then current\<lparr>Message := ''Application has pending changes, setting status to Waiting.''\<rparr>
        else current)"

definition onRevisionChange ::
  "time \<Rightarrow> (string \<rightharpoonup> int) \<Rightarrow> Application \<Rightarrow>
   ApplicationSetApplicationStatus \<Rightarrow> ApplicationSetApplicationStatus" where
  "onRevisionChange now appStepMap app s =
     (if TargetRevisions s \<noteq> Revisions app then
        s\<lparr>TargetRevisions := Revisions app, Status := ''Waiting'',
          LastTransitionTime := Some now,
          Step := Itoa (getAppStep (Application s) appStepMap)\<rparr>
      else s)"

definition onOutdated ::
  "time \<Rightarrow> (string \<rightharpoonup> int) \<Rightarrow> bool \<Rightarrow>
   ApplicationSetApplicationStatus \<Rightarrow> ApplicationSetApplicationStatus" where
  "onOutdated now appStepMap appOutdated s =
     (if appOutdated \<and> Status s \<noteq> ''Waiting'' \<and> Status s \<noteq> ''Pending'' then
        transitionTo now appStepMap ''Waiting''
          ''Application has pending changes, setting status to Waiting.'' s
      else s)"

definition onPending ::
  "time \<Rightarrow> (string \<rightharpoonup> int) \<Rightarrow> bool \<Rightarrow> Application \<Rightarrow>
   ApplicationSetApplicationStatus \<Rightarrow> ApplicationSetApplicationStatus" where
  "onPending now appStepMap appOutdated app s =
     (case statusStrings app of
        (healthStatusString, syncStatusString, operationPhaseString) \<Rightarrow>
     if Status s = ''Pending'' then
       (if \<not> appOutdated \<and> operationPhaseString = ''Succeeded'' then
          transitionTo now appStepMap ''Progressing''
            ''Application resource completed a sync successfully, updating status from Pending to Progressing.'' s
        else if operationPhaseString = ''Running'' \<or> healthStatusString = ''Progressing'' then
          transitionTo now appStepMap ''Progressing''
            ''Application resource became Progressing, updating status from Pending to Progressing.'' s
        else s)
     else s)"

definition onWaitingHealthy ::
  "time \<Rightarrow> (string \<rightharpoonup> int) \<Rightarrow> Application \<Rightarrow>
   ApplicationSetApplicationStatus \<Rightarrow> ApplicationSetApplicationStatus" where
  "onWaitingHealthy now appStepMap app s =
     (case statusStrings app of
        (healthStatusString, syncStatusString, operationPhaseString) \<Rightarrow>
     if Status s = ''Waiting'' \<and> isApplicationHealthy app then
       transitionTo now appStepMap healthStatusString
         ''Application resource is already Healthy, updating status from Waiting to Healthy.'' s
     else s)"

definition onProgressingHealthy ::
  "time \<Rightarrow> (string \<rightharpoonup> int) \<Rightarrow> Application \<Rightarrow>
   ApplicationSetApplicationStatus \<Rightarrow> ApplicationSetApplicationStatus" where
  "onProgressingHealthy now appStepMap app s =
     (case statusStrings app of
        (healthStatusString, syncStatusString, operationPhaseString) \<Rightarrow>
     if Status s = ''Progressing'' \<and> isApplicationHealthy app then
       transitionTo now appStepMap healthStatusString
         ''Application resource became Healthy, updating status from Progressing to Healthy.'' s
     else s)"

text \<open>The entry appended to \<^verbatim>\<open>appStatuses\<close>: the statements above, in the source's order.\<close>

definition nextApplicationStatus ::
  "time \<Rightarrow> ('s, 'z) ApplicationSet_scheme \<Rightarrow> (string \<rightharpoonup> int) \<Rightarrow> Application \<Rightarrow>
   ApplicationSetApplicationStatus" where
  "nextApplicationStatus now applicationSet appStepMap app =
     (let appOutdated = (progressiveSyncsRollingSyncStrategyEnabled applicationSet \<and>
                         fst (snd (statusStrings app)) = ''OutOfSync'')
      in onProgressingHealthy now appStepMap app
           (onWaitingHealthy now appStepMap app
              (onPending now appStepMap appOutdated app
                 (onOutdated now appStepMap appOutdated
                    (onRevisionChange now appStepMap app
                       (currentOrDefault now applicationSet appStepMap app))))))"

text \<open>The list handed to \<^verbatim>\<open>setAppSetApplicationStatus\<close>: one entry per application, in order.\<close>

definition nextApplicationStatuses ::
  "time \<Rightarrow> ('s, 'z) ApplicationSet_scheme \<Rightarrow> Application list \<Rightarrow> (string \<rightharpoonup> int) \<Rightarrow>
   ApplicationSetApplicationStatus list" where
  "nextApplicationStatuses now applicationSet applications appStepMap =
     map (nextApplicationStatus now applicationSet appStepMap) applications"

section \<open>The object store\<close>

text \<open>
  The controller-runtime client the reconciler calls, as explicit state: the child
  Applications, the stored ApplicationSet, the log of the calls made, and fault injection:
  \<open>faults\<close> says which calls, by their position in the log, fail and how, so that each
  error return of the source is reachable. A call that fails changes nothing else.
\<close>

datatype ClientCall =
    GetAppSetCall | StatusUpdateCall | UpdateAppSetCall
  | ListCall | GetCall string | UpdateCall string | DeleteCall string

record 's Cluster =
  apps :: "Application list"
  appSet :: "'s ApplicationSet option"
  callLog :: "ClientCall list"
  faults :: "nat \<Rightarrow> error option"

definition injected :: "'s Cluster \<Rightarrow> error option" where
  "injected cl = faults cl (length (callLog cl))"

definition answered :: "ClientCall \<Rightarrow> 's Cluster \<Rightarrow> 's Cluster" where
  "answered call cl = cl\<lparr>callLog := callLog cl @ [call]\<rparr>"

definition sameObject :: "'a ObjectMeta_scheme \<Rightarrow> 'b ObjectMeta_scheme \<Rightarrow> bool" where
  "sameObject a b = (Name a = Name b \<and> Namespace a = Namespace b)"

text \<open>\<^verbatim>\<open>r.Get\<close> of the ApplicationSet with the key of \<open>key\<close>.\<close>

definition clientGetAppSet ::
  "'s Cluster \<Rightarrow> 's ApplicationSet \<Rightarrow> (error + 's ApplicationSet) \<times> 's Cluster" where
  "clientGetAppSet cl key =
     (case injected cl of
        Some err \<Rightarrow> (Inl err, answered GetAppSetCall cl)
      | None \<Rightarrow>
          (case appSet cl of
             None \<Rightarrow> (Inl ErrNotFound, answered GetAppSetCall cl)
           | Some stored \<Rightarrow>
               if sameObject stored key then (Inr stored, answered GetAppSetCall cl)
               else (Inl ErrNotFound, answered GetAppSetCall cl)))"

text \<open>
  \<^verbatim>\<open>r.Client.Status().Update\<close>: only the status of the stored object is replaced; the
  stored object is what the call leaves in its argument.
\<close>

definition clientStatusUpdate ::
  "'s Cluster \<Rightarrow> 's ApplicationSet \<Rightarrow> (error + 's ApplicationSet) \<times> 's Cluster" where
  "clientStatusUpdate cl obj =
     (case injected cl of
        Some err \<Rightarrow> (Inl err, answered StatusUpdateCall cl)
      | None \<Rightarrow>
          (case appSet cl of
             None \<Rightarrow> (Inl ErrNotFound, answered StatusUpdateCall cl)
           | Some stored \<Rightarrow>
               if sameObject stored obj then
                 let written = stored\<lparr>Conditions := Conditions obj,
                                       ApplicationStatus := ApplicationStatus obj\<rparr>
                 in (Inr written, (answered StatusUpdateCall cl)\<lparr>appSet := Some written\<rparr>)
               else (Inl ErrNotFound, answered StatusUpdateCall cl)))"

text \<open>
  \<^verbatim>\<open>r.Update\<close> of the ApplicationSet: metadata and spec are replaced, the status is kept. An
  object with a deletion timestamp and no finalizer left is removed by the API server.
\<close>

definition clientUpdateAppSet :: "'s Cluster \<Rightarrow> 's ApplicationSet \<Rightarrow> error option \<times> 's Cluster" where
  "clientUpdateAppSet cl obj =
     (case injected cl of
        Some err \<Rightarrow> (Some err, answered UpdateAppSetCall cl)
      | None \<Rightarrow>
          (case appSet cl of
             None \<Rightarrow> (Some ErrNotFound, answered UpdateAppSetCall cl)
           | Some stored \<Rightarrow>
               if sameObject stored obj then
                 let written = obj\<lparr>Conditions := Conditions stored,
                                    ApplicationStatus := ApplicationStatus stored\<rparr>
                 in (None, (answered UpdateAppSetCall cl)\<lparr>appSet :=
                       (if DeletionTimestamp written \<noteq> None \<and> Finalizers written = []
                        then None else Some written)\<rparr>)
               else (Some ErrNotFound, answered UpdateAppSetCall cl)))"

definition findApp :: "'s Cluster \<Rightarrow> 'a ObjectMeta_scheme \<Rightarrow> Application option" where
  "findApp cl key = find (\<lambda>a. sameObject a key) (apps cl)"

definition replaceApp :: "Application \<Rightarrow> Application list \<Rightarrow> Application list" where
  "replaceApp obj as = map (\<lambda>a. if sameObject a obj then obj else a) as"

text \<open>\<^verbatim>\<open>r.Get\<close> of an Application by namespace and name.\<close>

definition clientGet :: "'s Cluster \<Rightarrow> 'a ObjectMeta_scheme \<Rightarrow> (error + Application) \<times> 's Cluster" where
  "clientGet cl key =
     (case injected cl of
        Some err \<Rightarrow> (Inl err, answered (GetCall (Name key)) cl)
      | None \<Rightarrow>
          (case findApp cl key of
             None \<Rightarrow> (Inl ErrNotFound, answered (GetCall (Name key)) cl)
           | Some a \<Rightarrow> (Inr a, answered (GetCall (Name key)) cl)))"

text \<open>\<^verbatim>\<open>r.Update\<close> and \<^verbatim>\<open>r.Patch\<close> of an Application: the stored object is replaced.\<close>

definition clientUpdate :: "'s Cluster \<Rightarrow> Application \<Rightarrow> error option \<times> 's Cluster" where
  "clientUpdate cl obj =
     (case injected cl of
        Some err \<Rightarrow> (Some err, answered (UpdateCall (Name obj)) cl)
      | None \<Rightarrow>
          (case findApp cl obj of
             None \<Rightarrow> (Some ErrNotFound, answered (UpdateCall (Name obj)) cl)
           | Some a \<Rightarrow> (None, (answered (UpdateCall (Name obj)) cl)\<lparr>apps := replaceApp obj (apps cl)\<rparr>)))"

text \<open>
  \<^verbatim>\<open>r.Delete\<close> of an Application: an object with finalizers is marked with a deletion
  timestamp (kept when it has one), an object without finalizers is removed.
\<close>

definition clientDelete :: "time \<Rightarrow> 's Cluster \<Rightarrow> Application \<Rightarrow> error option \<times> 's Cluster" where
  "clientDelete now cl obj =
     (case injected cl of
        Some err \<Rightarrow> (Some err, answered (DeleteCall (Name obj)) cl)
      | None \<Rightarrow>
          (case findApp cl obj of
             None \<Rightarrow> (Some ErrNotFound, answered (DeleteCall (Name obj)) cl)
           | Some a \<Rightarrow>
               if Finalizers a = [] then
                 (None, (answered (DeleteCall (Name obj)) cl)\<lparr>apps := filter (\<lambda>b. \<not> sameObject b obj) (apps cl)\<rparr>)
               else
                 (None, (answered (DeleteCall (Name obj)) cl)\<lparr>apps := replaceApp
                    (a\<lparr>DeletionTimestamp :=
                         (case DeletionTimestamp a of None \<Rightarrow> Some now | Some t \<Rightarrow> Some t)\<rparr>)
                    (apps cl)\<rparr>)))"

text \<open>
  \<^verbatim>\<open>appControllerIndexer\<close>: the name of the ApplicationSet that controls the Application.
  \<^verbatim>\<open>metav1.GetControllerOf\<close> is the first owner reference whose \<^verbatim>\<open>Controller\<close> is true.
\<close>

definition appControllerIndexer :: "Application \<Rightarrow> string list" where
  "appControllerIndexer app =
     (case find (\<lambda>ref. Controller ref = Some True) (OwnerReferences app) of
        None \<Rightarrow> []
      | Some owner \<Rightarrow>
          if APIVersion owner \<noteq> ''argoproj.io/v1alpha1'' \<or> Kind owner \<noteq> ''ApplicationSet''
          then [] else [RefName owner])"

definition getCurrentApplications ::
  "'s Cluster \<Rightarrow> 's ApplicationSet \<Rightarrow> (error + Application list) \<times> 's Cluster" where
  "getCurrentApplications cl applicationSet =
     (case injected cl of
        Some err \<Rightarrow> (Inl (ErrWrap ''error retrieving applications'' err), answered ListCall cl)
      | None \<Rightarrow>
          (Inr (filter (\<lambda>a. Name applicationSet \<in> set (appControllerIndexer a) \<and>
                           Namespace a = Namespace applicationSet) (apps cl)),
           answered ListCall cl))"

text \<open>
  \<^verbatim>\<open>retry.RetryOnConflict\<close> of client-go with at most \<open>steps\<close> attempts
  (\<^verbatim>\<open>retry.DefaultRetry\<close> has 5): the function is run again while it fails with a conflict.
\<close>

fun RetryOnConflict :: "nat \<Rightarrow> ('st \<Rightarrow> error option \<times> 'st) \<Rightarrow> 'st \<Rightarrow> error option \<times> 'st" where
  "RetryOnConflict 0 fn st = (None, st)"
| "RetryOnConflict (Suc n) fn st =
     (case fn st of
        (None, st') \<Rightarrow> (None, st')
      | (Some err, st') \<Rightarrow>
          if IsConflict err \<and> n > 0 then RetryOnConflict n fn st' else (Some err, st'))"

definition DefaultRetry :: nat where
  "DefaultRetry = 5"

section \<open>Writing the per-application status list\<close>

text \<open>The loop of \<^verbatim>\<open>setAppSetApplicationStatus\<close> that looks for a changed entry.\<close>

fun statusChanged ::
  "ApplicationSetApplicationStatus list \<Rightarrow> ApplicationSetApplicationStatus list \<Rightarrow> bool" where
  "statusChanged recorded [] = False"
| "statusChanged recorded (appStatus # rest) =
     (let idx = findApplicationStatusIndex recorded (Application appStatus) in
      if idx = - 1 then True
      else
        let currentStatus = recorded ! nat idx in
        if Message currentStatus \<noteq> Message appStatus \<or> Status currentStatus \<noteq> Status appStatus \<or>
           Step currentStatus \<noteq> Step appStatus
        then True
        else statusChanged recorded rest)"

text \<open>
  One run of the function handed to \<^verbatim>\<open>RetryOnConflict\<close>: fetch the stored object, set its
  status list, update, and copy the result into \<^verbatim>\<open>applicationSet\<close>. A fetch error other
  than not-found ends the retries with no error.
\<close>

definition applicationStatusAttempt ::
  "'s ApplicationSet \<times> 's Cluster \<Rightarrow> error option \<times> ('s ApplicationSet \<times> 's Cluster)" where
  "applicationStatusAttempt st =
     (case st of (applicationSet, cl) \<Rightarrow>
        (case clientGetAppSet cl applicationSet of
           (Inl err, cl1) \<Rightarrow>
             if \<not> IsNotFound err then (None, (applicationSet, cl1))
             else (Some (ErrWrap ''error fetching updated application set'' err), (applicationSet, cl1))
         | (Inr updatedAppset, cl1) \<Rightarrow>
             (case clientStatusUpdate cl1
                     (updatedAppset\<lparr>ApplicationStatus := ApplicationStatus applicationSet\<rparr>) of
                (Inl err, cl2) \<Rightarrow> (Some err, (applicationSet, cl2))
              | (Inr written, cl2) \<Rightarrow> (None, (written, cl2)))))"

text \<open>
  \<^verbatim>\<open>sort.Slice\<close> by application name is \<^const>\<open>sort_key\<close>; Go does not fix the order of
  entries with the same name, the model keeps it.
\<close>

definition setAppSetApplicationStatus ::
  "'s Cluster \<Rightarrow> 's ApplicationSet \<Rightarrow> ApplicationSetApplicationStatus list \<Rightarrow>
   error option \<times> ('s ApplicationSet \<times> 's Cluster)" where
  "setAppSetApplicationStatus cl applicationSet applicationStatuses =
     (let needToUpdateStatus =
            (if length applicationStatuses \<noteq> length (ApplicationStatus applicationSet) then True
             else statusChanged (ApplicationStatus applicationSet) applicationStatuses)
      in if needToUpdateStatus then
           (case RetryOnConflict DefaultRetry applicationStatusAttempt
                   (applicationSet\<lparr>ApplicationStatus := sort_key Application applicationStatuses\<rparr>, cl) of
              (Some err, st) \<Rightarrow> (Some (ErrWrap ''unable to set application set status'' err), st)
            | (None, st) \<Rightarrow> (None, st))
         else (None, (applicationSet, cl)))"

text \<open>
  The comparison of one supplied entry in \<^const>\<open>statusChanged\<close>: the recorded entry found for
  its application has the same message, status and step.
\<close>

definition entryUnchanged ::
  "ApplicationSetApplicationStatus list \<Rightarrow> ApplicationSetApplicationStatus \<Rightarrow> bool" where
  "entryUnchanged recorded e \<longleftrightarrow>
     findApplicationStatusIndex recorded (Application e) \<noteq> - 1 \<and>
     Message (recorded ! nat (findApplicationStatusIndex recorded (Application e))) = Message e \<and>
     Status (recorded ! nat (findApplicationStatusIndex recorded (Application e))) = Status e \<and>
     Step (recorded ! nat (findApplicationStatusIndex recorded (Application e))) = Step e"

text \<open>
  What a run of \<^const>\<open>setAppSetApplicationStatus\<close> can do to the store: nothing, or replace
  the status list of the stored ApplicationSet by \<open>statuses\<close>.
\<close>

definition statusListWritten ::
  "ApplicationSetApplicationStatus list \<Rightarrow> 's Cluster \<Rightarrow> 's Cluster \<Rightarrow> bool" where
  "statusListWritten statuses cl cl' \<longleftrightarrow>
     apps cl' = apps cl \<and>
     (appSet cl' = appSet cl \<or>
      (\<exists>stored. appSet cl = Some stored \<and>
         appSet cl' = Some (stored\<lparr>ApplicationStatus := statuses\<rparr>)))"

section \<open>Promotion from Waiting to Pending\<close>

text \<open>
  \<^verbatim>\<open>strconv.Atoi\<close>: an optional sign and decimal digits, within the 64-bit range.
\<close>

definition isDigit :: "char \<Rightarrow> bool" where
  "isDigit c = (c \<in> set ''0123456789'')"

definition digitsValue :: "string \<Rightarrow> nat" where
  "digitsValue ds = foldl (\<lambda>acc c. 10 * acc + (of_char c - 48)) 0 ds"

definition Atoi :: "string \<Rightarrow> int option" where
  "Atoi s =
     (case (case s of
              [] \<Rightarrow> (False, [])
            | c # cs \<Rightarrow> if c = CHR ''-'' then (True, cs)
                        else if c = CHR ''+'' then (False, cs) else (False, s)) of
        (negative, ds) \<Rightarrow>
          if ds = [] \<or> \<not> list_all isDigit ds then None
          else
            let v = (if negative then - int (digitsValue ds) else int (digitsValue ds))
            in if v < - (2 ^ 63) \<or> 2 ^ 63 - 1 < v then None else Some v)"

text \<open>
  \<^verbatim>\<open>intstr.GetScaledValueFromIntOrPercent\<close> of k8s.io/apimachinery with \<^verbatim>\<open>roundUp\<close> false:
  an integer is returned as it is, a string must be a number followed by a percent sign and
  gives that percentage of \<open>totalCount\<close> rounded down; anything else gives 0 and an error.
  The library computes \<^verbatim>\<open>int(math.Floor(float64(v) * float64(total) / 100))\<close>. While the
  product is below \<open>2^53\<close> in absolute value, it is exact in \<^verbatim>\<open>float64\<close> and the rounding
  error of the division is below a hundredth, so the result is the quotient rounded down.
  From there on the rounding of \<^verbatim>\<open>float64\<close> decides, and for a result outside the range of
  \<^verbatim>\<open>int\<close> the conversion, which Go leaves to the implementation: that result is the
  parameter \<open>floatScaled\<close>.
\<close>

definition GetScaledValueFromIntOrPercent ::
  "(int \<Rightarrow> int \<Rightarrow> int) \<Rightarrow> IntOrString \<Rightarrow> int \<Rightarrow> int \<times> error option" where
  "GetScaledValueFromIntOrPercent floatScaled intOrPercent totalCount =
     (case intOrPercent of
        IntVal i \<Rightarrow> (i, None)
      | StrVal s \<Rightarrow>
          if s \<noteq> [] \<and> last s = CHR ''%'' then
            (case Atoi (butlast s) of
               None \<Rightarrow> (0, Some (ErrOther ''invalid value for IntOrString''))
             | Some v \<Rightarrow>
                 if \<bar>v * totalCount\<bar> < 2 ^ 53 then ((v * totalCount) div 100, None)
                 else (floatScaled v totalCount, None))
          else (0, Some (ErrOther ''invalid value for IntOrString'')))"

text \<open>
  The value \<^verbatim>\<open>maxUpdateVal\<close> that \<^verbatim>\<open>updateApplicationSetApplicationStatusProgress\<close>
  compares the count with: the scaled value (its error is only logged), raised to 1 for a
  string other than \<^verbatim>\<open>0%\<close> whose value is below 1.
\<close>

definition maxUpdateValue :: "(int \<Rightarrow> int \<Rightarrow> int) \<Rightarrow> IntOrString \<Rightarrow> int \<Rightarrow> int" where
  "maxUpdateValue floatScaled maxUpdate totalCount =
     (case GetScaledValueFromIntOrPercent floatScaled maxUpdate totalCount of
        (maxUpdateVal, err) \<Rightarrow>
          (case maxUpdate of
             StrVal s \<Rightarrow> if s \<noteq> ''0%'' \<and> maxUpdateVal < 1 then 1 else maxUpdateVal
           | IntVal i \<Rightarrow> maxUpdateVal))"

text \<open>\<^verbatim>\<open>appStepMap[name]\<close> and \<^verbatim>\<open>appSyncMap[name]\<close>: a missing key reads as the zero value.\<close>

definition stepIndex :: "(string \<rightharpoonup> int) \<Rightarrow> string \<Rightarrow> int" where
  "stepIndex appStepMap name = (case appStepMap name of None \<Rightarrow> 0 | Some i \<Rightarrow> i)"

definition syncEnabled :: "(string \<rightharpoonup> bool) \<Rightarrow> string \<Rightarrow> bool" where
  "syncEnabled appSyncMap name = (case appSyncMap name of None \<Rightarrow> False | Some b \<Rightarrow> b)"

definition inFlight :: "ApplicationSetApplicationStatus \<Rightarrow> bool" where
  "inFlight appStatus = (Status appStatus = ''Pending'' \<or> Status appStatus = ''Progressing'')"

text \<open>The first loop: \<^verbatim>\<open>totalCountMap\<close> and \<^verbatim>\<open>updateCountMap\<close>, indexed by step.\<close>

fun countLoop ::
  "(string \<rightharpoonup> int) \<Rightarrow> ApplicationSetApplicationStatus list \<Rightarrow> nat list \<times> nat list \<Rightarrow>
   nat list \<times> nat list" where
  "countLoop appStepMap [] counts = counts"
| "countLoop appStepMap (appStatus # rest) (totalCountMap, updateCountMap) =
     (let i = nat (stepIndex appStepMap (Application appStatus)) in
      countLoop appStepMap rest
        (totalCountMap[i := totalCountMap ! i + 1],
         if inFlight appStatus then updateCountMap[i := updateCountMap ! i + 1]
         else updateCountMap))"

text \<open>The second loop: the entries appended to \<^verbatim>\<open>appStatuses\<close>.\<close>

fun progressLoop ::
  "(int \<Rightarrow> int \<Rightarrow> int) \<Rightarrow> time \<Rightarrow> ApplicationSetRolloutStep list \<Rightarrow> (string \<rightharpoonup> bool) \<Rightarrow>
   (string \<rightharpoonup> int) \<Rightarrow> nat list \<Rightarrow> ApplicationSetApplicationStatus list \<Rightarrow> nat list \<Rightarrow>
   ApplicationSetApplicationStatus list" where
  "progressLoop floatScaled now steps appSyncMap appStepMap totalCountMap [] updateCountMap = []"
| "progressLoop floatScaled now steps appSyncMap appStepMap totalCountMap (appStatus # rest)
     updateCountMap =
     (let i = nat (stepIndex appStepMap (Application appStatus));
          maxUpdateAllowed =
            (case MaxUpdate (steps ! i) of
               None \<Rightarrow> True
             | Some maxUpdate \<Rightarrow>
                 \<not> (int (updateCountMap ! i)
                      \<ge> maxUpdateValue floatScaled maxUpdate (int (totalCountMap ! i))))
      in if Status appStatus = ''Waiting'' \<and> syncEnabled appSyncMap (Application appStatus) \<and>
            maxUpdateAllowed
         then
           appStatus\<lparr>LastTransitionTime := Some now, Status := ''Pending'',
             Message := ''Application moved to Pending status, watching for the Application resource to start Progressing.'',
             Step := Itoa (getAppStep (Application appStatus) appStepMap)\<rparr>
           # progressLoop floatScaled now steps appSyncMap appStepMap totalCountMap rest
               (updateCountMap[i := updateCountMap ! i + 1])
         else
           appStatus # progressLoop floatScaled now steps appSyncMap appStepMap totalCountMap rest
                         updateCountMap)"

text \<open>
  The list \<^verbatim>\<open>appStatuses\<close> of \<^verbatim>\<open>updateApplicationSetApplicationStatusProgress\<close>. An index
  outside the slices of counts is a run-time panic of the first loop.
\<close>

definition promoteToPending ::
  "(int \<Rightarrow> int \<Rightarrow> int) \<Rightarrow> time \<Rightarrow> ('s, 'z) ApplicationSet_scheme \<Rightarrow> (string \<rightharpoonup> bool) \<Rightarrow>
   (string \<rightharpoonup> int) \<Rightarrow> error + ApplicationSetApplicationStatus list" where
  "promoteToPending floatScaled now applicationSet appSyncMap appStepMap =
     (if progressiveSyncsRollingSyncStrategyEnabled applicationSet then
        let steps = rollingSyncSteps applicationSet in
        if list_ex (\<lambda>appStatus. stepIndex appStepMap (Application appStatus) < 0 \<or>
                       int (length steps) \<le> stepIndex appStepMap (Application appStatus))
             (ApplicationStatus applicationSet)
        then Inl (ErrOther ''index out of range'')
        else
          (case countLoop appStepMap (ApplicationStatus applicationSet)
                  (replicate (length steps) 0, replicate (length steps) 0) of
             (totalCountMap, updateCountMap) \<Rightarrow>
               Inr (progressLoop floatScaled now steps appSyncMap appStepMap totalCountMap
                      (ApplicationStatus applicationSet) updateCountMap))
      else Inr [])"

definition updateApplicationSetApplicationStatusProgress ::
  "(int \<Rightarrow> int \<Rightarrow> int) \<Rightarrow> time \<Rightarrow> 's Cluster \<Rightarrow> 's ApplicationSet \<Rightarrow> (string \<rightharpoonup> bool) \<Rightarrow>
   (string \<rightharpoonup> int) \<Rightarrow>
   (error + ApplicationSetApplicationStatus list) \<times> ('s ApplicationSet \<times> 's Cluster)" where
  "updateApplicationSetApplicationStatusProgress floatScaled now cl applicationSet appSyncMap
     appStepMap =
     (case promoteToPending floatScaled now applicationSet appSyncMap appStepMap of
        Inl panic \<Rightarrow> (Inl panic, (applicationSet, cl))
      | Inr appStatuses \<Rightarrow>
          (case setAppSetApplicationStatus cl applicationSet appStatuses of
             (Some err, st) \<Rightarrow> (Inl (ErrWrap ''failed to set AppSet app status'' err), st)
           | (None, st) \<Rightarrow> (Inr appStatuses, st)))"

text \<open>
  The counts of the pass, as its first loop takes them: the entries counted with step \<open>i\<close>
  (0-based) are those whose application the step map puts there, an application in no step
  reading as step 0; and those of them that are Pending or Progressing.
\<close>

definition entriesOfStep ::
  "(string \<rightharpoonup> int) \<Rightarrow> nat \<Rightarrow> ApplicationSetApplicationStatus list \<Rightarrow>
   ApplicationSetApplicationStatus list" where
  "entriesOfStep appStepMap i statuses =
     filter (\<lambda>appStatus. stepIndex appStepMap (Application appStatus) = int i) statuses"

definition inFlightCount ::
  "(string \<rightharpoonup> int) \<Rightarrow> nat \<Rightarrow> ApplicationSetApplicationStatus list \<Rightarrow> nat" where
  "inFlightCount appStepMap i statuses = length (filter inFlight (entriesOfStep appStepMap i statuses))"

text \<open>
  Every recorded entry is counted with one of the \<open>n\<close> steps, so that the first loop stays
  within its slices. A step map built by \<^const>\<open>buildAppDependencyList\<close> for the same
  ApplicationSet makes it so.
\<close>

definition indicesInRange ::
  "(string \<rightharpoonup> int) \<Rightarrow> nat \<Rightarrow> ApplicationSetApplicationStatus list \<Rightarrow> bool" where
  "indicesInRange appStepMap n statuses =
     list_all (\<lambda>appStatus. 0 \<le> stepIndex appStepMap (Application appStatus) \<and>
                 stepIndex appStepMap (Application appStatus) < int n) statuses"

text \<open>The entry as the pass writes it when it promotes it.\<close>

definition movedToPending ::
  "time \<Rightarrow> (string \<rightharpoonup> int) \<Rightarrow> ApplicationSetApplicationStatus \<Rightarrow> ApplicationSetApplicationStatus" where
  "movedToPending now appStepMap appStatus =
     appStatus\<lparr>LastTransitionTime := Some now, Status := ''Pending'',
       Message := ''Application moved to Pending status, watching for the Application resource to start Progressing.'',
       Step := Itoa (getAppStep (Application appStatus) appStepMap)\<rparr>"

text \<open>
  The step of an application has no maxUpdate, or fewer entries counted with the step are
  Pending or Progressing in \<open>current\<close> than the maxUpdate resolves to, for the number of the
  entries counted with the step in \<open>recorded\<close>.
\<close>

definition belowCap ::
  "(int \<Rightarrow> int \<Rightarrow> int) \<Rightarrow> ApplicationSetRolloutStep list \<Rightarrow> (string \<rightharpoonup> int) \<Rightarrow>
   ApplicationSetApplicationStatus list \<Rightarrow> ApplicationSetApplicationStatus list \<Rightarrow> string \<Rightarrow> bool" where
  "belowCap floatScaled steps appStepMap recorded current name =
     (let i = nat (stepIndex appStepMap name) in
      case MaxUpdate (steps ! i) of
        None \<Rightarrow> True
      | Some maxUpdate \<Rightarrow>
          int (inFlightCount appStepMap i current)
          < maxUpdateValue floatScaled maxUpdate (int (length (entriesOfStep appStepMap i recorded))))"

section \<open>The condition routine\<close>

text \<open>
  The condition types, statuses and reasons are string constants of the API package.
\<close>

definition ApplicationSetConditionErrorOccurred :: string where
  "ApplicationSetConditionErrorOccurred = ''ErrorOccurred''"

definition ApplicationSetConditionParametersGenerated :: string where
  "ApplicationSetConditionParametersGenerated = ''ParametersGenerated''"

definition ApplicationSetConditionResourcesUpToDate :: string where
  "ApplicationSetConditionResourcesUpToDate = ''ResourcesUpToDate''"

definition ApplicationSetConditionRolloutProgressing :: string where
  "ApplicationSetConditionRolloutProgressing = ''RolloutProgressing''"

definition ApplicationSetConditionStatusTrue :: string where
  "ApplicationSetConditionStatusTrue = ''True''"

definition ApplicationSetConditionStatusFalse :: string where
  "ApplicationSetConditionStatusFalse = ''False''"

definition ApplicationSetReasonErrorOccurred :: string where
  "ApplicationSetReasonErrorOccurred = ''ErrorOccurred''"

definition ApplicationSetReasonParametersGenerated :: string where
  "ApplicationSetReasonParametersGenerated = ''ParametersGenerated''"

definition getParametersGeneratedCondition :: "bool \<Rightarrow> string \<Rightarrow> ApplicationSetCondition" where
  "getParametersGeneratedCondition parametersGenerated message =
     (if parametersGenerated then
        \<lparr>Type = ApplicationSetConditionParametersGenerated,
         CondMessage = ''Successfully generated parameters for all Applications'',
         CondLastTransitionTime = None,
         Reason = ApplicationSetReasonParametersGenerated,
         CondStatus = ApplicationSetConditionStatusTrue\<rparr>
      else
        \<lparr>Type = ApplicationSetConditionParametersGenerated,
         CondMessage = message,
         CondLastTransitionTime = None,
         Reason = ApplicationSetReasonErrorOccurred,
         CondStatus = ApplicationSetConditionStatusFalse\<rparr>)"

text \<open>
  The first half of \<^verbatim>\<open>setApplicationSetStatusCondition\<close>: the new conditions and the map
  of evaluated types handed to \<^verbatim>\<open>SetConditions\<close>.
\<close>

definition evaluateCondition ::
  "('s, 'z) ApplicationSet_scheme \<Rightarrow> ApplicationSetCondition \<Rightarrow> bool \<Rightarrow>
   ApplicationSetCondition list \<times> (string \<rightharpoonup> bool)" where
  "evaluateCondition applicationSet condition parametersGenerated =
     (let evaluatedTypes0 =
            [ApplicationSetConditionParametersGenerated \<mapsto> True,
             ApplicationSetConditionErrorOccurred \<mapsto> False,
             ApplicationSetConditionResourcesUpToDate \<mapsto> False,
             ApplicationSetConditionRolloutProgressing \<mapsto> False];
          evaluatedTypes1 = evaluatedTypes0(Type condition \<mapsto> True);
          evaluatedTypes2 =
            (if \<not> isRollingSyncStrategy applicationSet
             then evaluatedTypes1(ApplicationSetConditionRolloutProgressing \<mapsto> True)
             else evaluatedTypes1);
          newConditions =
            (if Type condition \<noteq> ApplicationSetConditionParametersGenerated
             then [condition,
                   getParametersGeneratedCondition parametersGenerated (CondMessage condition)]
             else [condition])
      in if Type condition = ApplicationSetConditionResourcesUpToDate then
           (if CondStatus condition = ApplicationSetConditionStatusTrue then
              (newConditions @
                 [\<lparr>Type = ApplicationSetConditionErrorOccurred,
                   CondMessage = CondMessage condition, CondLastTransitionTime = None,
                   Reason = Reason condition,
                   CondStatus = ApplicationSetConditionStatusFalse\<rparr>],
               evaluatedTypes2(ApplicationSetConditionErrorOccurred \<mapsto> True))
            else (newConditions, evaluatedTypes2))
         else if Type condition = ApplicationSetConditionErrorOccurred then
           (if CondStatus condition = ApplicationSetConditionStatusTrue then
              (newConditions @
                 [\<lparr>Type = ApplicationSetConditionResourcesUpToDate,
                   CondMessage = CondMessage condition, CondLastTransitionTime = None,
                   Reason = ApplicationSetReasonErrorOccurred,
                   CondStatus = ApplicationSetConditionStatusFalse\<rparr>],
               evaluatedTypes2(ApplicationSetConditionResourcesUpToDate \<mapsto> True))
            else (newConditions, evaluatedTypes2))
         else if Type condition = ApplicationSetConditionRolloutProgressing then
           (if \<not> isRollingSyncStrategy applicationSet
            then (newConditions, evaluatedTypes2(Type condition \<mapsto> False))
            else (newConditions, evaluatedTypes2))
         else (newConditions, evaluatedTypes2))"

text \<open>
  The loop that sets \<^verbatim>\<open>needToUpdateConditions\<close>, for two lists of the same length: some
  position differs in type, reason, status or message.
\<close>

definition conditionsChanged ::
  "ApplicationSetCondition list \<Rightarrow> ApplicationSetCondition list \<Rightarrow> bool" where
  "conditionsChanged current previousConditions =
     list_ex (\<lambda>(c, previous). Type c \<noteq> Type previous \<or> Reason c \<noteq> Reason previous \<or>
                 CondStatus c \<noteq> CondStatus previous \<or> CondMessage c \<noteq> CondMessage previous)
       (zip current previousConditions)"

text \<open>
  One run of the function handed to \<^verbatim>\<open>RetryOnConflict\<close>. \<^verbatim>\<open>Status.SetConditions\<close> is a
  method of the API package and not among the sources: it is the parameter \<open>setConditions\<close>,
  from the time, the existing conditions, the new ones and the evaluated types to the new list.
\<close>

definition conditionsAttempt ::
  "(time \<Rightarrow> ApplicationSetCondition list \<Rightarrow> ApplicationSetCondition list \<Rightarrow>
      (string \<rightharpoonup> bool) \<Rightarrow> ApplicationSetCondition list) \<Rightarrow>
   time \<Rightarrow> ApplicationSetCondition list \<Rightarrow> (string \<rightharpoonup> bool) \<Rightarrow>
   's ApplicationSet \<times> 's Cluster \<Rightarrow> error option \<times> ('s ApplicationSet \<times> 's Cluster)" where
  "conditionsAttempt setConditions now newConditions evaluatedTypes st =
     (case st of (applicationSet, cl) \<Rightarrow>
        (case clientGetAppSet cl applicationSet of
           (Inl err, cl1) \<Rightarrow>
             if \<not> IsNotFound err then (None, (applicationSet, cl1))
             else (Some (ErrWrap ''error fetching updated application set'' err), (applicationSet, cl1))
         | (Inr updatedAppset, cl1) \<Rightarrow>
             (case clientStatusUpdate cl1
                     (updatedAppset\<lparr>Conditions :=
                        setConditions now (Conditions updatedAppset) newConditions evaluatedTypes\<rparr>) of
                (Inl err, cl2) \<Rightarrow> (Some err, (applicationSet, cl2))
              | (Inr written, cl2) \<Rightarrow> (None, (written, cl2)))))"

definition setApplicationSetStatusCondition ::
  "(time \<Rightarrow> ApplicationSetCondition list \<Rightarrow> ApplicationSetCondition list \<Rightarrow>
      (string \<rightharpoonup> bool) \<Rightarrow> ApplicationSetCondition list) \<Rightarrow>
   time \<Rightarrow> 's Cluster \<Rightarrow> 's ApplicationSet \<Rightarrow> ApplicationSetCondition \<Rightarrow> bool \<Rightarrow>
   error option \<times> ('s ApplicationSet \<times> 's Cluster)" where
  "setApplicationSetStatusCondition setConditions now cl applicationSet condition parametersGenerated =
     (case evaluateCondition applicationSet condition parametersGenerated of
        (newConditions, evaluatedTypes) \<Rightarrow>
     let previousConditions = Conditions applicationSet;
         updatedConditions = setConditions now previousConditions newConditions evaluatedTypes;
         needToUpdateConditions =
           (if length updatedConditions \<noteq> length previousConditions then True
            else conditionsChanged updatedConditions previousConditions)
     in if \<not> needToUpdateConditions
        then (None, (applicationSet\<lparr>Conditions := updatedConditions\<rparr>, cl))
        else
          (case RetryOnConflict DefaultRetry
                  (conditionsAttempt setConditions now newConditions evaluatedTypes)
                  (applicationSet\<lparr>Conditions := updatedConditions\<rparr>, cl) of
             (Some err, st) \<Rightarrow>
               if \<not> IsNotFound err
               then (Some (ErrWrap ''unable to set application set condition'' err), st)
               else (None, st)
           | (None, st) \<Rightarrow> (None, st)))"

text \<open>
  Modelled from the spec: \<^verbatim>\<open>ApplicationSetStatus.SetConditions\<close> of the API package is not
  among the sources. The spec says the routine "maintains a set of condition records",
  that a type is "evaluated" or not, and that when rollout progress is evaluated with no new
  entry "any existing entry is removed"; the caller's comments say a condition whose type
  is marked not evaluated is ignored. So: the existing conditions of a type that is not
  evaluated are kept, and the new conditions of an evaluated type are added, with the time
  of the call when they carry none. The spec fixes no order for the result.
\<close>

definition evaluated :: "(string \<rightharpoonup> bool) \<Rightarrow> string \<Rightarrow> bool" where
  "evaluated evaluatedTypes t = (evaluatedTypes t = Some True)"

definition stamped :: "time \<Rightarrow> ApplicationSetCondition \<Rightarrow> ApplicationSetCondition" where
  "stamped now c =
     (case CondLastTransitionTime c of
        None \<Rightarrow> c\<lparr>CondLastTransitionTime := Some now\<rparr>
      | Some t \<Rightarrow> c)"

definition SetConditions ::
  "time \<Rightarrow> ApplicationSetCondition list \<Rightarrow> ApplicationSetCondition list \<Rightarrow>
   (string \<rightharpoonup> bool) \<Rightarrow> ApplicationSetCondition list" where
  "SetConditions now existing conditions evaluatedTypes =
     filter (\<lambda>c. \<not> evaluated evaluatedTypes (Type c)) existing @
     map (stamped now) (filter (\<lambda>c. evaluated evaluatedTypes (Type c)) conditions)"

text \<open>The four fields the condition routine compares, and what the claims say of a list.\<close>

definition conditionFields :: "ApplicationSetCondition \<Rightarrow> string \<times> string \<times> string \<times> string" where
  "conditionFields c = (Type c, Reason c, CondStatus c, CondMessage c)"

definition hasCondition ::
  "ApplicationSetCondition list \<Rightarrow> string \<Rightarrow> string \<Rightarrow> string \<Rightarrow> string \<Rightarrow> bool" where
  "hasCondition cs t st r m = ((t, r, st, m) \<in> set (map conditionFields cs))"

definition statusesOf :: "ApplicationSetCondition list \<Rightarrow> string \<Rightarrow> string list" where
  "statusesOf cs t = map CondStatus (filter (\<lambda>c. Type c = t) cs)"

text \<open>
  The cross-consistency of a condition list after the routine ran for \<open>condition\<close> and the
  flag \<open>parametersGenerated\<close> on an ApplicationSet for which \<^const>\<open>isRollingSyncStrategy\<close> is
  \<open>rolling\<close>.
\<close>

definition crossConsistent ::
  "bool \<Rightarrow> ApplicationSetCondition \<Rightarrow> bool \<Rightarrow> ApplicationSetCondition list \<Rightarrow> bool" where
  "crossConsistent rolling condition parametersGenerated cs \<longleftrightarrow>
     (Type condition = ApplicationSetConditionResourcesUpToDate \<and>
      CondStatus condition = ApplicationSetConditionStatusTrue \<longrightarrow>
        hasCondition cs ApplicationSetConditionResourcesUpToDate ApplicationSetConditionStatusTrue
          (Reason condition) (CondMessage condition) \<and>
        hasCondition cs ApplicationSetConditionErrorOccurred ApplicationSetConditionStatusFalse
          (Reason condition) (CondMessage condition) \<and>
        statusesOf cs ApplicationSetConditionErrorOccurred = [ApplicationSetConditionStatusFalse])
   \<and> (Type condition = ApplicationSetConditionErrorOccurred \<and>
      CondStatus condition = ApplicationSetConditionStatusTrue \<longrightarrow>
        hasCondition cs ApplicationSetConditionResourcesUpToDate ApplicationSetConditionStatusFalse
          ApplicationSetReasonErrorOccurred (CondMessage condition) \<and>
        statusesOf cs ApplicationSetConditionResourcesUpToDate = [ApplicationSetConditionStatusFalse])
   \<and> (Type condition \<noteq> ApplicationSetConditionParametersGenerated \<longrightarrow>
        statusesOf cs ApplicationSetConditionParametersGenerated =
          [if parametersGenerated then ApplicationSetConditionStatusTrue
           else ApplicationSetConditionStatusFalse])
   \<and> (\<not> rolling \<and> Type condition \<noteq> ApplicationSetConditionRolloutProgressing \<longrightarrow>
        statusesOf cs ApplicationSetConditionRolloutProgressing = [])"

section \<open>The update predicate of the ApplicationSet\<close>

definition AnnotationApplicationSetRefresh :: string where
  "AnnotationApplicationSetRefresh = ''argocd.argoproj.io/application-set-refresh''"

text \<open>
  \<^verbatim>\<open>cmp.Equal\<close> with \<^verbatim>\<open>cmpopts.EquateEmpty\<close> on two status lists: entry by entry, a nil
  and an empty \<^verbatim>\<open>TargetRevisions\<close> being equal.
\<close>

definition equateEmpty :: "ApplicationSetApplicationStatus \<Rightarrow> ApplicationSetApplicationStatus" where
  "equateEmpty s = s\<lparr>TargetRevisions :=
     (case TargetRevisions s of None \<Rightarrow> Some [] | Some revisions \<Rightarrow> Some revisions)\<rparr>"

definition cmpEqualStatuses ::
  "ApplicationSetApplicationStatus list \<Rightarrow> ApplicationSetApplicationStatus list \<Rightarrow> bool" where
  "cmpEqualStatuses a b = (map equateEmpty a = map equateEmpty b)"

text \<open>
  \<^verbatim>\<open>shouldRequeueForApplicationSet\<close>; each argument is a pointer that may be nil. The spec
  of an ApplicationSet is its strategy and its other fields.
\<close>

definition shouldRequeueForApplicationSet ::
  "'s ApplicationSet option \<Rightarrow> 's ApplicationSet option \<Rightarrow> bool \<Rightarrow> bool" where
  "shouldRequeueForApplicationSet appSetOld appSetNew enableProgressiveSyncs =
     (case (appSetOld, appSetNew) of
        (Some old, Some new) \<Rightarrow>
          if enableProgressiveSyncs \<and>
             \<not> cmpEqualStatuses (ApplicationStatus old) (ApplicationStatus new) then True
          else if (Strategy old, SpecOther old) \<noteq> (Strategy new, SpecOther new) \<or>
                  Labels old \<noteq> Labels new \<or> Finalizers old \<noteq> Finalizers new \<or>
                  DeletionTimestamp old \<noteq> DeletionTimestamp new then True
          else if Annotations old \<noteq> Annotations new then
            (let oldHasRefreshAnnotation = (Annotations old AnnotationApplicationSetRefresh \<noteq> None);
                 newHasRefreshAnnotation = (Annotations new AnnotationApplicationSetRefresh \<noteq> None)
             in if oldHasRefreshAnnotation \<and> \<not> newHasRefreshAnnotation then False else True)
          else False
      | _ \<Rightarrow> False)"

text \<open>What the update predicate compares besides the annotations and the status.\<close>

definition ownedFieldsChanged :: "'s ApplicationSet \<Rightarrow> 's ApplicationSet \<Rightarrow> bool" where
  "ownedFieldsChanged old new \<longleftrightarrow>
     Strategy old \<noteq> Strategy new \<or> SpecOther old \<noteq> SpecOther new \<or> Labels old \<noteq> Labels new \<or>
     Finalizers old \<noteq> Finalizers new \<or> DeletionTimestamp old \<noteq> DeletionTimestamp new"

section \<open>Create, update and delete of the children\<close>

text \<open>
  \<^verbatim>\<open>createOrUpdateInCluster\<close>. \<^verbatim>\<open>utils.CreateOrUpdate\<close> is not among the sources: its
  outcome for one generated application, with the mutation function of the loop body
  applied, is the parameter \<open>createOrUpdate\<close>, which returns the action, the error and the
  store after the call.
\<close>

fun createOrUpdateLoop ::
  "('c \<Rightarrow> Application \<Rightarrow> (string \<times> error option) \<times> 'c) \<Rightarrow> error option \<Rightarrow> 'c \<Rightarrow>
   Application list \<Rightarrow> error option \<times> 'c" where
  "createOrUpdateLoop createOrUpdate firstError cl [] = (firstError, cl)"
| "createOrUpdateLoop createOrUpdate firstError cl (generatedApp # rest) =
     (case createOrUpdate cl generatedApp of
        ((action, Some err), cl') \<Rightarrow>
          createOrUpdateLoop createOrUpdate
            (if firstError = None then Some err else firstError) cl' rest
      | ((action, None), cl') \<Rightarrow> createOrUpdateLoop createOrUpdate firstError cl' rest)"

definition createOrUpdateInCluster ::
  "('c \<Rightarrow> Application \<Rightarrow> (string \<times> error option) \<times> 'c) \<Rightarrow> 'c \<Rightarrow> Application list \<Rightarrow>
   error option \<times> 'c" where
  "createOrUpdateInCluster createOrUpdate cl desiredApplications =
     createOrUpdateLoop createOrUpdate None cl desiredApplications"

definition ResourcesFinalizerName :: string where
  "ResourcesFinalizerName = ''resources-finalizer.argocd.argoproj.io''"

text \<open>
  \<^verbatim>\<open>removeFinalizerOnInvalidDestination\<close>. \<^verbatim>\<open>argoutil.GetDestinationCluster\<close> is not among
  the sources and is the parameter \<open>getDestinationCluster\<close>; a cluster is given by its server
  and name, as a destination is. The result is the error, the application as the function
  leaves it, and the store.
\<close>

definition removeFinalizerOnInvalidDestination ::
  "(ApplicationDestination \<Rightarrow> error + ApplicationDestination) \<Rightarrow> 's Cluster \<Rightarrow> Application \<Rightarrow>
   ApplicationDestination list \<Rightarrow> error option \<times> Application \<times> 's Cluster" where
  "removeFinalizerOnInvalidDestination getDestinationCluster cl app clusterList =
     (if length (Finalizers app) = 0 then (None, app, cl)
      else
        let validDestination =
              (case getDestinationCluster (Destination app) of
                 Inl err \<Rightarrow> False
               | Inr destCluster \<Rightarrow>
                   list_ex (\<lambda>cluster. Server destCluster = Server cluster \<and>
                                      DestName destCluster = DestName cluster) clusterList)
        in if \<not> validDestination then
             let newFinalizers = filter (\<lambda>f. f \<noteq> ResourcesFinalizerName) (Finalizers app) in
             if length newFinalizers \<noteq> length (Finalizers app) then
               let updated = app\<lparr>Finalizers := newFinalizers\<rparr> in
               (case clientUpdate cl updated of
                  (Some err, cl') \<Rightarrow> (Some (ErrWrap ''error updating finalizers'' err), app, cl')
                | (None, cl') \<Rightarrow> (None, updated, cl'))
             else (None, app, cl)
           else (None, app, cl))"

text \<open>
  The loop of \<^verbatim>\<open>deleteInCluster\<close> over the current applications. The two statements
  \<^verbatim>\<open>if firstError != nil { firstError = err }\<close> are written as in the source.
\<close>

fun deleteLoop ::
  "(ApplicationDestination \<Rightarrow> error + ApplicationDestination) \<Rightarrow> time \<Rightarrow>
   ApplicationDestination list \<Rightarrow> string list \<Rightarrow> error option \<Rightarrow> 's Cluster \<Rightarrow>
   Application list \<Rightarrow> error option \<times> 's Cluster" where
  "deleteLoop getDestinationCluster now clusterList m firstError cl [] = (firstError, cl)"
| "deleteLoop getDestinationCluster now clusterList m firstError cl (app # rest) =
     (if Name app \<in> set m then
        deleteLoop getDestinationCluster now clusterList m firstError cl rest
      else
        (case removeFinalizerOnInvalidDestination getDestinationCluster cl app clusterList of
           (Some err, app', cl') \<Rightarrow>
             deleteLoop getDestinationCluster now clusterList m
               (if firstError \<noteq> None then Some err else firstError) cl' rest
         | (None, app', cl') \<Rightarrow>
             (case clientDelete now cl' app' of
                (Some err, cl'') \<Rightarrow>
                  deleteLoop getDestinationCluster now clusterList m
                    (if firstError \<noteq> None then Some err else firstError) cl'' rest
              | (None, cl'') \<Rightarrow>
                  deleteLoop getDestinationCluster now clusterList m firstError cl'' rest)))"

text \<open>
  \<^verbatim>\<open>deleteInCluster\<close>. The result of \<^verbatim>\<open>utils.ListClusters\<close>, which is not among the sources,
  is the parameter \<open>listClusters\<close>.
\<close>

definition deleteInCluster ::
  "(ApplicationDestination \<Rightarrow> error + ApplicationDestination) \<Rightarrow>
   error + ApplicationDestination list \<Rightarrow> time \<Rightarrow> 's Cluster \<Rightarrow> 's ApplicationSet \<Rightarrow>
   Application list \<Rightarrow> error option \<times> 's Cluster" where
  "deleteInCluster getDestinationCluster listClusters now cl applicationSet desiredApplications =
     (case listClusters of
        Inl err \<Rightarrow> (Some (ErrWrap ''error listing clusters'' err), cl)
      | Inr clusterList \<Rightarrow>
          (case getCurrentApplications cl applicationSet of
             (Inl err, cl') \<Rightarrow> (Some (ErrWrap ''error getting current applications'' err), cl')
           | (Inr current, cl') \<Rightarrow>
               deleteLoop getDestinationCluster now clusterList (map Name desiredApplications)
                 None cl' current))"

section \<open>Deletion of the ApplicationSet\<close>

text \<open>
  \<^verbatim>\<open>strings.EqualFold\<close> on ASCII letters. The case folding of Unicode beyond ASCII is left
  out: of the letters of \<^verbatim>\<open>Reverse\<close> only \<^verbatim>\<open>s\<close> has a fold outside ASCII (U+017F).
\<close>

definition lowerASCII :: "char \<Rightarrow> char" where
  "lowerASCII c =
     (case map_of (zip ''ABCDEFGHIJKLMNOPQRSTUVWXYZ'' ''abcdefghijklmnopqrstuvwxyz'') c of
        None \<Rightarrow> c
      | Some l \<Rightarrow> l)"

definition EqualFold :: "string \<Rightarrow> string \<Rightarrow> bool" where
  "EqualFold s t = (map lowerASCII s = map lowerASCII t)"

definition ReverseDeletionOrder :: string where
  "ReverseDeletionOrder = ''Reverse''"

definition isProgressiveSyncDeletionOrderReversed :: "('s, 'z) ApplicationSet_scheme \<Rightarrow> bool" where
  "isProgressiveSyncDeletionOrderReversed appset =
     (progressiveSyncsRollingSyncStrategyEnabled appset \<and>
      (case Strategy appset of
         None \<Rightarrow> False
       | Some st \<Rightarrow> EqualFold (DeletionOrder st) ReverseDeletionOrder))"

text \<open>
  The entries of \<^verbatim>\<open>reverseDeleteAppSteps\<close>; the field \<^verbatim>\<open>Step\<close> of the source is \<open>StepNo\<close>
  here, \<open>Step\<close> being a field of the status entries.
\<close>

record deleteInOrder =
  AppName :: string
  StepNo :: int

text \<open>
  \<^verbatim>\<open>argov1alpha1.Application{}\<close>, which \<^verbatim>\<open>retrievedApp\<close> still is when \<^verbatim>\<open>r.Get\<close> fails.
\<close>

definition zeroApplication :: Application where
  "zeroApplication = \<lparr>Name = [], Namespace = [], Labels = Map.empty, Annotations = Map.empty,
     Finalizers = [], OwnerReferences = [], DeletionTimestamp = None,
     Destination = \<lparr>Server = [], DestName = []\<rparr>,
     HealthStatus = [], SyncStatus = [], OperationState = None, Revisions = None\<rparr>"

text \<open>
  A nil pointer dereference is a run-time panic, which \<^verbatim>\<open>Reconcile\<close> recovers and returns as
  an error with an empty result.
\<close>

definition nilDereference :: error where
  "nilDereference = ErrOther ''invalid memory address or nil pointer dereference''"

definition notDeletedInTime :: error where
  "notDeletedInTime = ErrOther ''application has not been deleted in over 2 minutes''"

text \<open>
  The body of the loop of \<^verbatim>\<open>performReverseDeletion\<close> after the Get: the test of the deletion
  timestamp (two minutes are 120 seconds) and the Delete call. The result is the requeue time
  in seconds, the error, and the store.
\<close>

definition deleteRetrieved ::
  "time \<Rightarrow> 's Cluster \<Rightarrow> Application \<Rightarrow> (time \<times> error option) \<times> 's Cluster" where
  "deleteRetrieved now cl retrievedApp =
     (if (case DeletionTimestamp retrievedApp of None \<Rightarrow> False | Some t \<Rightarrow> now - t > 120)
      then ((0, Some notDeletedInTime), cl)
      else
        (case clientDelete now cl retrievedApp of
           (Some err, cl') \<Rightarrow> ((0, Some err), cl')
         | (None, cl') \<Rightarrow> ((10, None), cl')))"

text \<open>
  The loop over the sorted entries. A child that the Get reports as not found is skipped; any
  other error of the Get is not looked at and the loop body goes on with the empty
  \<^verbatim>\<open>retrievedApp\<close>.
\<close>

fun reverseDeletionLoop ::
  "time \<Rightarrow> (string \<rightharpoonup> Application) \<Rightarrow> 's Cluster \<Rightarrow> deleteInOrder list \<Rightarrow>
   (time \<times> error option) \<times> 's Cluster" where
  "reverseDeletionLoop now appMap cl [] = ((0, None), cl)"
| "reverseDeletionLoop now appMap cl (step # rest) =
     (case appMap (AppName step) of
        None \<Rightarrow> ((0, Some nilDereference), cl)
      | Some app \<Rightarrow>
          (case clientGet cl app of
             (Inl err, cl') \<Rightarrow>
               if IsNotFound err then reverseDeletionLoop now appMap cl' rest
               else deleteRetrieved now cl' zeroApplication
           | (Inr retrievedApp, cl') \<Rightarrow> deleteRetrieved now cl' retrievedApp))"

text \<open>
  \<^verbatim>\<open>performReverseDeletion\<close>. The entries are collected by a \<^verbatim>\<open>range\<close> over the map
  \<^verbatim>\<open>appStepMap\<close>, whose order Go leaves open: \<open>rangeOrder\<close> gives the order of the visit from
  the keys in the order of \<open>currentApps\<close>. \<^verbatim>\<open>sort.Slice\<close> is a stable sort here (any result of
  an unstable sort is the stable sort of another visiting order). \<^verbatim>\<open>appMap\<close> keeps the last
  application of a name, the loop variable being fresh in every iteration.
\<close>

definition stepKeys :: "(string \<rightharpoonup> int) \<Rightarrow> Application list \<Rightarrow> string list" where
  "stepKeys appStepMap currentApps =
     remdups (filter (\<lambda>appName. appStepMap appName \<noteq> None) (map Name currentApps))"

definition performReverseDeletion ::
  "(string list \<Rightarrow> string list) \<Rightarrow> time \<Rightarrow> 's Cluster \<Rightarrow> ('s, 'z) ApplicationSet_scheme \<Rightarrow>
   Application list \<Rightarrow> (time \<times> error option) \<times> 's Cluster" where
  "performReverseDeletion rangeOrder now cl appset currentApps =
     (case Strategy appset of
        None \<Rightarrow> ((0, Some nilDereference), cl)
      | Some st \<Rightarrow>
          (case RollingSync st of
             None \<Rightarrow> ((0, Some nilDereference), cl)
           | Some steps \<Rightarrow>
               let stepLength = int (length steps);
                   appMap = map_of (rev (map (\<lambda>app. (Name app, app)) currentApps));
                   appStepMap = snd (buildAppDependencyList appset currentApps);
                   reverseDeleteAppSteps =
                     List.map_filter
                       (\<lambda>appName. map_option
                          (\<lambda>appStep. \<lparr>AppName = appName, StepNo = stepLength - appStep - 1\<rparr>)
                          (appStepMap appName))
                       (rangeOrder (stepKeys appStepMap currentApps))
               in reverseDeletionLoop now appMap cl (sort_key StepNo reverseDeleteAppSteps)))"

text \<open>
  \<^verbatim>\<open>removeOwnerReferencesOnDeleteAppSet\<close>.
\<close>

fun removeOwnerReferencesLoop :: "'s Cluster \<Rightarrow> Application list \<Rightarrow> error option \<times> 's Cluster" where
  "removeOwnerReferencesLoop cl [] = (None, cl)"
| "removeOwnerReferencesLoop cl (app # rest) =
     (case clientUpdate cl (app\<lparr>OwnerReferences := []\<rparr>) of
        (Some err, cl') \<Rightarrow> (Some (ErrWrap ''error updating application'' err), cl')
      | (None, cl') \<Rightarrow> removeOwnerReferencesLoop cl' rest)"

definition removeOwnerReferencesOnDeleteAppSet ::
  "'s Cluster \<Rightarrow> 's ApplicationSet \<Rightarrow> error option \<times> 's Cluster" where
  "removeOwnerReferencesOnDeleteAppSet cl applicationSet =
     (case getCurrentApplications cl applicationSet of
        (Inl err, cl') \<Rightarrow>
          (Some (ErrWrap ''error getting current applications for ApplicationSet'' err), cl')
      | (Inr applications, cl') \<Rightarrow> removeOwnerReferencesLoop cl' applications)"

text \<open>
  \<^verbatim>\<open>controllerutil.RemoveFinalizer\<close> removes every occurrence of the finalizer.
\<close>

definition RemoveFinalizer :: "'a ObjectMeta_scheme \<Rightarrow> string \<Rightarrow> 'a ObjectMeta_scheme" where
  "RemoveFinalizer obj finalizer =
     obj\<lparr>Finalizers := filter (\<lambda>f. f \<noteq> finalizer) (Finalizers obj)\<rparr>"

text \<open>
  The branch of \<^verbatim>\<open>Reconcile\<close> for an ApplicationSet with a deletion timestamp (lines 139 to
  168), in three parts from its end: the removal of the resources finalizer with the Update of
  the ApplicationSet, the reverse deletion in front of it, and the policy check in front of
  both. \<^verbatim>\<open>utils.DefaultPolicy\<close> is not among the sources: what its \<^verbatim>\<open>AllowDelete\<close> answers is
  the parameter \<open>deleteAllowed\<close>. The result is \<^verbatim>\<open>RequeueAfter\<close> in seconds, the error, and the
  store.
\<close>

definition removeFinalizerAndUpdate ::
  "'s Cluster \<Rightarrow> 's ApplicationSet \<Rightarrow> (time \<times> error option) \<times> 's Cluster" where
  "removeFinalizerAndUpdate cl applicationSetInfo =
     (case clientUpdateAppSet cl (RemoveFinalizer applicationSetInfo ResourcesFinalizerName) of
        (Some err, cl') \<Rightarrow> ((0, Some err), cl')
      | (None, cl') \<Rightarrow> ((0, None), cl'))"

definition reverseDeletionStage ::
  "(string list \<Rightarrow> string list) \<Rightarrow> time \<Rightarrow> 's Cluster \<Rightarrow> 's ApplicationSet \<Rightarrow>
   (time \<times> error option) \<times> 's Cluster" where
  "reverseDeletionStage rangeOrder now cl applicationSetInfo =
     (if isProgressiveSyncDeletionOrderReversed applicationSetInfo then
        (case getCurrentApplications cl applicationSetInfo of
           (Inl err, cl') \<Rightarrow> ((0, Some err), cl')
         | (Inr currentApplications, cl') \<Rightarrow>
             (case performReverseDeletion rangeOrder now cl' applicationSetInfo currentApplications of
                ((requeueTime, Some err), cl'') \<Rightarrow> ((0, Some err), cl'')
              | ((requeueTime, None), cl'') \<Rightarrow>
                  if requeueTime > 0 then ((requeueTime, None), cl'')
                  else removeFinalizerAndUpdate cl'' applicationSetInfo))
      else removeFinalizerAndUpdate cl applicationSetInfo)"

definition reconcileDeletion ::
  "bool \<Rightarrow> (string list \<Rightarrow> string list) \<Rightarrow> time \<Rightarrow> 's Cluster \<Rightarrow> 's ApplicationSet \<Rightarrow>
   (time \<times> error option) \<times> 's Cluster" where
  "reconcileDeletion deleteAllowed rangeOrder now cl applicationSetInfo =
     (if \<not> deleteAllowed then
        (case removeOwnerReferencesOnDeleteAppSet cl applicationSetInfo of
           (Some err, cl') \<Rightarrow> ((0, Some err), cl')
         | (None, cl') \<Rightarrow> reverseDeletionStage rangeOrder now cl' applicationSetInfo)
      else reverseDeletionStage rangeOrder now cl applicationSetInfo)"

text \<open>
  What the statements about the deletion speak of: the names given to Delete calls so far, a
  child that is in the store, a child in the store that was marked for deletion more than
  two minutes ago, a store without injected faults, the children of an ApplicationSet as
  \<^const>\<open>getCurrentApplications\<close> selects them, a store whose ApplicationSet is gone or has lost
  the resources finalizer, the key of an object, and the child the reverse order turns to: one
  assigned to a step and in the store, with no child of a later step left in the store.
\<close>

definition deleteCalls :: "'s Cluster \<Rightarrow> string list" where
  "deleteCalls cl = concat (map (\<lambda>c. case c of DeleteCall n \<Rightarrow> [n] | _ \<Rightarrow> []) (callLog cl))"

definition live :: "'s Cluster \<Rightarrow> Application \<Rightarrow> bool" where
  "live cl a = (findApp cl a \<noteq> None)"

definition overdue :: "time \<Rightarrow> 's Cluster \<Rightarrow> Application \<Rightarrow> bool" where
  "overdue now cl a =
     (case findApp cl a of
        None \<Rightarrow> False
      | Some r \<Rightarrow> (case DeletionTimestamp r of None \<Rightarrow> False | Some t \<Rightarrow> now - t > 120))"

definition quiet :: "'s Cluster \<Rightarrow> bool" where
  "quiet cl = (\<forall>k. faults cl k = None)"

definition isChildOf :: "'s ApplicationSet \<Rightarrow> Application \<Rightarrow> bool" where
  "isChildOf applicationSet a =
     (Name applicationSet \<in> set (appControllerIndexer a) \<and> Namespace a = Namespace applicationSet)"

definition childrenOf :: "'s Cluster \<Rightarrow> 's ApplicationSet \<Rightarrow> Application list" where
  "childrenOf cl applicationSet = filter (isChildOf applicationSet) (apps cl)"

definition finalizerRemoved :: "'s Cluster \<Rightarrow> bool" where
  "finalizerRemoved cl =
     (case appSet cl of
        None \<Rightarrow> True
      | Some stored \<Rightarrow> ResourcesFinalizerName \<notin> set (Finalizers stored))"

definition objectKey :: "'a ObjectMeta_scheme \<Rightarrow> string \<times> string" where
  "objectKey a = (Name a, Namespace a)"

definition laterStep :: "(string \<rightharpoonup> int) \<Rightarrow> Application \<Rightarrow> Application \<Rightarrow> bool" where
  "laterStep appStepMap a b =
     (case appStepMap (Name a) of
        None \<Rightarrow> False
      | Some sa \<Rightarrow> (case appStepMap (Name b) of None \<Rightarrow> False | Some sb \<Rightarrow> sa < sb))"

definition firstToDelete ::
  "'s Cluster \<Rightarrow> (string \<rightharpoonup> int) \<Rightarrow> Application list \<Rightarrow> Application \<Rightarrow> bool" where
  "firstToDelete cl appStepMap currentApps a =
     (appStepMap (Name a) \<noteq> None \<and> live cl a \<and>
      (\<forall>b\<in>set currentApps. laterStep appStepMap a b \<longrightarrow> \<not> live cl b))"

subsection \<open>Concrete objects used by the closed theorems\<close>

definition emptyMeta :: ObjectMeta where
  "emptyMeta = \<lparr>Name = '''', Namespace = '''', Labels = Map.empty, Annotations = Map.empty,
     Finalizers = [], OwnerReferences = [], DeletionTimestamp = None\<rparr>"

definition newApplication :: "string \<Rightarrow> (string \<rightharpoonup> string) \<Rightarrow> Application" where
  "newApplication n ls = \<lparr>Name = n, Namespace = ''argocd'', Labels = ls, Annotations = Map.empty,
     Finalizers = [], OwnerReferences = [], DeletionTimestamp = None,
     Destination = \<lparr>Server = '''', DestName = ''''\<rparr>,
     HealthStatus = '''', SyncStatus = '''', OperationState = None, Revisions = Some []\<rparr>"

definition newAppSet ::
  "ApplicationSetStrategy option \<Rightarrow> ApplicationSetApplicationStatus list \<Rightarrow> unit ApplicationSet" where
  "newAppSet st statuses = \<lparr>Name = ''appset'', Namespace = ''argocd'', Labels = Map.empty,
     Annotations = Map.empty, Finalizers = [], OwnerReferences = [], DeletionTimestamp = None,
     Strategy = st, SpecOther = (), Conditions = [], ApplicationStatus = statuses\<rparr>"

definition rollingSync :: "ApplicationSetRolloutStep list \<Rightarrow> ApplicationSetStrategy option" where
  "rollingSync steps =
     Some \<lparr>StrategyType = ''RollingSync'', RollingSync = Some steps, DeletionOrder = ''''\<rparr>"

definition noLabels :: "string \<rightharpoonup> string" where
  "noLabels = Map.empty"

definition noSteps :: "string \<rightharpoonup> int" where
  "noSteps = Map.empty"

definition inStep :: ApplicationSetRolloutStep where
  "inStep = \<lparr>MatchExpressions = [\<lparr>Key = ''env'', Operator = ''In'', Values = [''dev'']\<rparr>],
     MaxUpdate = None\<rparr>"

definition healthyApp :: Application where
  "healthyApp = (newApplication ''app'' noLabels)
     \<lparr>HealthStatus := ''Healthy'', SyncStatus := ''Synced''\<rparr>"

definition runningApp :: Application where
  "runningApp = (newApplication ''app'' noLabels)
     \<lparr>HealthStatus := ''Progressing'', SyncStatus := ''Synced'', OperationState := Some ''Running''\<rparr>"

definition statusEntry :: "string \<Rightarrow> string \<Rightarrow> ApplicationSetApplicationStatus" where
  "statusEntry n st = \<lparr>Application = n, LastTransitionTime = Some 0, Message = [],
     Status = st, Step = ''1'', TargetRevisions = Some []\<rparr>"

definition noFaults :: "nat \<Rightarrow> error option" where
  "noFaults = (\<lambda>n. None)"

definition failingCall :: "nat \<Rightarrow> error \<Rightarrow> nat \<Rightarrow> error option" where
  "failingCall k err = (\<lambda>n. if n = k then Some err else None)"

definition newCluster ::
  "Application list \<Rightarrow> unit ApplicationSet option \<Rightarrow> (nat \<Rightarrow> error option) \<Rightarrow> unit Cluster" where
  "newCluster as parent fs = \<lparr>apps = as, appSet = parent, callLog = [], faults = fs\<rparr>"

definition controllerRef :: OwnerReference where
  "controllerRef = \<lparr>APIVersion = ''argoproj.io/v1alpha1'', Kind = ''ApplicationSet'',
     RefName = ''appset'', Controller = Some True\<rparr>"

definition ownedApp :: "string \<Rightarrow> (string \<rightharpoonup> string) \<Rightarrow> Application" where
  "ownedApp n ls = (newApplication n ls)\<lparr>OwnerReferences := [controllerRef]\<rparr>"

definition unknownDestination :: "ApplicationDestination \<Rightarrow> error + ApplicationDestination" where
  "unknownDestination = (\<lambda>d. Inl ErrNotFound)"

definition observedLater :: "ApplicationSetApplicationStatus \<Rightarrow> ApplicationSetApplicationStatus" where
  "observedLater r = r\<lparr>TargetRevisions := Some [''abc123''], LastTransitionTime := Some 9\<rparr>"

definition upToDate :: ApplicationSetCondition where
  "upToDate = \<lparr>Type = ''ResourcesUpToDate'',
     CondMessage = ''All applications have been generated successfully'',
     CondLastTransitionTime = None, Reason = ''ApplicationSetUpToDate'', CondStatus = ''True''\<rparr>"

definition notGenerated :: ApplicationSetCondition where
  "notGenerated = \<lparr>Type = ''ParametersGenerated'', CondMessage = ''generator failed'',
     CondLastTransitionTime = None, Reason = ''ErrorOccurred'', CondStatus = ''False''\<rparr>"

definition rolloutDone :: ApplicationSetCondition where
  "rolloutDone = \<lparr>Type = ''RolloutProgressing'', CondMessage = ''ApplicationSet Rollout has completed'',
     CondLastTransitionTime = Some 3, Reason = ''ApplicationSetRolloutComplete'', CondStatus = ''False''\<rparr>"

definition oldError :: ApplicationSetCondition where
  "oldError = \<lparr>Type = ''ErrorOccurred'', CondMessage = ''could not create application'',
     CondLastTransitionTime = Some 2, Reason = ''CreateApplicationError'', CondStatus = ''True''\<rparr>"

definition plainAppSet :: "ApplicationSetCondition list \<Rightarrow> unit ApplicationSet" where
  "plainAppSet cs = (newAppSet None [])\<lparr>Conditions := cs\<rparr>"

definition plainCluster :: "ApplicationSetCondition list \<Rightarrow> unit Cluster" where
  "plainCluster cs = newCluster [] (Some (plainAppSet cs)) noFaults"

definition refreshOnly :: "string \<rightharpoonup> string" where
  "refreshOnly = [''argocd.argoproj.io/application-set-refresh'' \<mapsto> ''true'']"

definition refreshAndTeam :: "string \<rightharpoonup> string" where
  "refreshAndTeam = [''argocd.argoproj.io/application-set-refresh'' \<mapsto> ''true'', ''team'' \<mapsto> ''a'']"

definition otherTeam :: "string \<rightharpoonup> string" where
  "otherTeam = [''team'' \<mapsto> ''b'']"

definition annotatedAppSet :: "(string \<rightharpoonup> string) \<Rightarrow> unit ApplicationSet" where
  "annotatedAppSet an = (newAppSet None [])\<lparr>Annotations := an\<rparr>"

definition noAnnotations :: "string \<rightharpoonup> string" where
  "noAnnotations = Map.empty"

definition cappedStep :: ApplicationSetRolloutStep where
  "cappedStep = \<lparr>MatchExpressions = [\<lparr>Key = ''env'', Operator = ''In'', Values = [''dev'']\<rparr>],
     MaxUpdate = Some (IntVal 1)\<rparr>"

text \<open>
  A value for the parameter \<open>floatScaled\<close>; the closed theorems stay below \<open>2^53\<close>, where it
  is not read.
\<close>

definition noRounding :: "int \<Rightarrow> int \<Rightarrow> int" where
  "noRounding v totalCount = (v * totalCount) div 100"

definition stepWith :: "IntOrString \<Rightarrow> ApplicationSetRolloutStep" where
  "stepWith maxUpdate = cappedStep\<lparr>MaxUpdate := Some maxUpdate\<rparr>"

definition twoInFirstStep :: "string \<rightharpoonup> int" where
  "twoInFirstStep = [''a'' \<mapsto> 0, ''b'' \<mapsto> 0]"

definition inFirstStep :: "string \<rightharpoonup> int" where
  "inFirstStep = [''a'' \<mapsto> 0, ''b'' \<mapsto> 0, ''c'' \<mapsto> 0]"

definition allSync :: "string \<rightharpoonup> bool" where
  "allSync = [''a'' \<mapsto> True, ''b'' \<mapsto> True, ''c'' \<mapsto> True]"

definition existsExpr :: ApplicationMatchExpression where
  "existsExpr = \<lparr>Key = ''env'', Operator = ''Exists'', Values = []\<rparr>"

definition existsStep :: ApplicationSetRolloutStep where
  "existsStep = \<lparr>MatchExpressions = [existsExpr], MaxUpdate = None\<rparr>"

definition envLabel :: "string \<Rightarrow> (string \<rightharpoonup> string)" where
  "envLabel v = [''env'' \<mapsto> v]"

definition prodStep :: ApplicationSetRolloutStep where
  "prodStep = \<lparr>MatchExpressions = [\<lparr>Key = ''env'', Operator = ''In'', Values = [''prod'']\<rparr>],
     MaxUpdate = None\<rparr>"

definition reverseOrder :: "ApplicationSetStrategy option" where
  "reverseOrder = Some \<lparr>StrategyType = ''RollingSync'', RollingSync = Some [inStep, prodStep],
     DeletionOrder = ''reverse''\<rparr>"

definition deletedAppSet :: "ApplicationSetStrategy option \<Rightarrow> unit ApplicationSet" where
  "deletedAppSet st = (newAppSet st [])
     \<lparr>Finalizers := [ResourcesFinalizerName, ''keep''], DeletionTimestamp := Some 0\<rparr>"

definition devApp :: Application where
  "devApp = ownedApp ''dev-app'' (envLabel ''dev'')"

definition prodApp :: Application where
  "prodApp = ownedApp ''prod-app'' (envLabel ''prod'')"

definition strayApp :: Application where
  "strayApp = ownedApp ''stray'' noLabels"

definition listOrder :: "string list \<Rightarrow> string list" where
  "listOrder ks = ks"

definition twoStepCluster :: "unit Cluster" where
  "twoStepCluster = newCluster [devApp, prodApp] (Some (deletedAppSet reverseOrder)) noFaults"

definition listFails :: "unit Cluster" where
  "listFails = newCluster [devApp, prodApp] (Some (deletedAppSet reverseOrder))
                 (failingCall 3 (ErrOther ''list failed''))"

section \<open>Theorems\<close>

lemmas strategy_defs =
  isRollingSyncStrategy_def rollingSyncSteps_def progressiveSyncsRollingSyncStrategyEnabled_def

text \<open>
  C3. Step assignment: the recorded step is the first step whose match expressions all match
  the labels, an operator other than In and NotIn making its expression non-matching.
  The code does not do this for an application that lacks the label key: there only the
  operator In is tested, so an expression with an invalid operator counts as matching.
  With the one step \<open>env Exists []\<close>, an application with no labels is assigned step 1,
  although \<open>labelMatchedExpression\<close> rejects the same expression for every label value.
\<close>

theorem C3_invalid_operator_selects_unlabelled_app:
  "getAppStep ''app''
     (snd (buildAppDependencyList (newAppSet (rollingSync [existsStep]) [])
        [newApplication ''app'' noLabels])) = 1
   \<and> fst (buildAppDependencyList (newAppSet (rollingSync [existsStep]) [])
        [newApplication ''app'' noLabels]) = [[''app'']]
   \<and> \<not> labelMatchedExpression ''dev'' existsExpr"
  by (simp add: getAppStep_def buildAppDependencyList_def strategy_defs newAppSet_def
      rollingSync_def existsStep_def existsExpr_def newApplication_def labelMatchedExpression_def
      noLabels_def)

subsection \<open>The status of one application after a pass\<close>

lemma isApplicationHealthy_iff:
  "isApplicationHealthy app \<longleftrightarrow>
     HealthStatus app = ''Healthy'' \<and> SyncStatus app \<noteq> ''OutOfSync'' \<and>
     (snd (snd (statusStrings app)) = ''Succeeded'' \<or> snd (snd (statusStrings app)) = [])"
  by (simp add: isApplicationHealthy_def statusStrings_def)

lemma Status_currentOrDefault:
  "Status (currentOrDefault now aset m app) =
     (if findApplicationStatusIndex (ApplicationStatus aset) (Name app) = - 1 then ''Waiting''
      else Status (ApplicationStatus aset !
             nat (findApplicationStatusIndex (ApplicationStatus aset) (Name app))))"
  by (simp add: currentOrDefault_def Let_def)

lemma TargetRevisions_currentOrDefault:
  "TargetRevisions (currentOrDefault now aset m app) =
     (if findApplicationStatusIndex (ApplicationStatus aset) (Name app) = - 1 then None
      else TargetRevisions (ApplicationStatus aset !
             nat (findApplicationStatusIndex (ApplicationStatus aset) (Name app))))"
  by (simp add: currentOrDefault_def Let_def)

lemma Status_onRevisionChange:
  "Status (onRevisionChange now m app s) =
     (if TargetRevisions s \<noteq> Revisions app then ''Waiting'' else Status s)"
  by (simp add: onRevisionChange_def)

lemma Status_onOutdated:
  "Status (onOutdated now m out s) =
     (if out \<and> Status s \<noteq> ''Waiting'' \<and> Status s \<noteq> ''Pending'' then ''Waiting'' else Status s)"
  by (simp add: onOutdated_def transitionTo_def)

lemma Status_onPending:
  "Status (onPending now m out app s) =
     (if Status s = ''Pending'' \<and>
         ((\<not> out \<and> snd (snd (statusStrings app)) = ''Succeeded'') \<or>
          snd (snd (statusStrings app)) = ''Running'' \<or> HealthStatus app = ''Progressing'')
      then ''Progressing'' else Status s)"
  by (simp add: onPending_def transitionTo_def statusStrings_def)

lemma Status_onWaitingHealthy:
  "Status (onWaitingHealthy now m app s) =
     (if Status s = ''Waiting'' \<and> isApplicationHealthy app then ''Healthy'' else Status s)"
  by (simp add: onWaitingHealthy_def transitionTo_def statusStrings_def isApplicationHealthy_def)

lemma Status_onProgressingHealthy:
  "Status (onProgressingHealthy now m app s) =
     (if Status s = ''Progressing'' \<and> isApplicationHealthy app then ''Healthy'' else Status s)"
  by (simp add: onProgressingHealthy_def transitionTo_def statusStrings_def isApplicationHealthy_def)

lemma Status_last_two:
  "Status (onProgressingHealthy now m app (onWaitingHealthy now m app s)) =
     (if (Status s = ''Waiting'' \<or> Status s = ''Progressing'') \<and> isApplicationHealthy app
      then ''Healthy'' else Status s)"
  by (simp add: Status_onWaitingHealthy Status_onProgressingHealthy)

lemma Status_first_two:
  "Status (onRevisionChange now m app (currentOrDefault now aset m app)) =
     (if findApplicationStatusIndex (ApplicationStatus aset) (Name app) = - 1 then ''Waiting''
      else if TargetRevisions (ApplicationStatus aset !
                nat (findApplicationStatusIndex (ApplicationStatus aset) (Name app))) \<noteq> Revisions app
      then ''Waiting''
      else Status (ApplicationStatus aset !
             nat (findApplicationStatusIndex (ApplicationStatus aset) (Name app))))"
  by (simp add: Status_onRevisionChange Status_currentOrDefault TargetRevisions_currentOrDefault)

lemma Status_next_from:
  "Status (nextApplicationStatus now aset m app) =
     (let out = (progressiveSyncsRollingSyncStrategyEnabled aset \<and> SyncStatus app = ''OutOfSync'');
          st1 = Status (onRevisionChange now m app (currentOrDefault now aset m app));
          st2 = (if out \<and> st1 \<noteq> ''Waiting'' \<and> st1 \<noteq> ''Pending'' then ''Waiting'' else st1);
          st3 = (if st2 = ''Pending'' \<and>
                    ((\<not> out \<and> snd (snd (statusStrings app)) = ''Succeeded'') \<or>
                     snd (snd (statusStrings app)) = ''Running'' \<or> HealthStatus app = ''Progressing'')
                 then ''Progressing'' else st2)
      in if (st3 = ''Waiting'' \<or> st3 = ''Progressing'') \<and> isApplicationHealthy app
         then ''Healthy'' else st3)"
  unfolding nextApplicationStatus_def Let_def Status_last_two Status_onPending Status_onOutdated
  by (simp only: statusStrings_def fst_conv snd_conv)

lemma next_from_Waiting:
  assumes "Status (onRevisionChange now m app (currentOrDefault now aset m app)) = ''Waiting''"
  shows "Status (nextApplicationStatus now aset m app) =
           (if isApplicationHealthy app then ''Healthy'' else ''Waiting'')"
  unfolding Status_next_from Let_def assms by simp

lemma next_from_Progressing_healthy:
  assumes "Status (onRevisionChange now m app (currentOrDefault now aset m app)) = ''Progressing''"
    and "isApplicationHealthy app"
  shows "Status (nextApplicationStatus now aset m app) = ''Healthy''"
proof -
  have "SyncStatus app \<noteq> ''OutOfSync''"
    using assms(2) by (simp add: isApplicationHealthy_iff)
  then show ?thesis
    unfolding Status_next_from Let_def assms(1) using assms(2) by simp
qed

lemma next_from_outdated:
  assumes "progressiveSyncsRollingSyncStrategyEnabled aset" "SyncStatus app = ''OutOfSync''"
    and "Status (onRevisionChange now m app (currentOrDefault now aset m app)) = st"
    and "st \<noteq> ''Waiting''" "st \<noteq> ''Pending''"
  shows "Status (nextApplicationStatus now aset m app) = ''Waiting''"
proof -
  have "\<not> isApplicationHealthy app"
    using assms(2) by (simp add: isApplicationHealthy_iff)
  then show ?thesis
    unfolding Status_next_from Let_def assms(3) using assms(1,2,4,5) by simp
qed

lemma next_from_Pending:
  assumes "progressiveSyncsRollingSyncStrategyEnabled aset"
    and "Status (onRevisionChange now m app (currentOrDefault now aset m app)) = ''Pending''"
    and "(SyncStatus app \<noteq> ''OutOfSync'' \<and> snd (snd (statusStrings app)) = ''Succeeded'') \<or>
         snd (snd (statusStrings app)) = ''Running'' \<or> HealthStatus app = ''Progressing''"
  shows "Status (nextApplicationStatus now aset m app) =
           (if isApplicationHealthy app then ''Healthy'' else ''Progressing'')"
  unfolding Status_next_from Let_def assms(2) using assms(1,3) by simp

lemma next_unchanged:
  assumes "progressiveSyncsRollingSyncStrategyEnabled aset"
    and "Status (onRevisionChange now m app (currentOrDefault now aset m app)) = st"
    and "\<not> (SyncStatus app = ''OutOfSync'' \<and> st \<noteq> ''Waiting'' \<and> st \<noteq> ''Pending'')"
    and "\<not> (st = ''Pending'' \<and>
            ((SyncStatus app \<noteq> ''OutOfSync'' \<and> snd (snd (statusStrings app)) = ''Succeeded'') \<or>
             snd (snd (statusStrings app)) = ''Running'' \<or> HealthStatus app = ''Progressing''))"
    and "\<not> ((st = ''Waiting'' \<or> st = ''Progressing'') \<and> isApplicationHealthy app)"
  shows "Status (nextApplicationStatus now aset m app) = st"
proof -
  let ?out = "progressiveSyncsRollingSyncStrategyEnabled aset \<and> SyncStatus app = ''OutOfSync''"
  have o: "?out \<longleftrightarrow> SyncStatus app = ''OutOfSync''"
    using assms(1) by simp
  have a: "(if ?out \<and> st \<noteq> ''Waiting'' \<and> st \<noteq> ''Pending'' then ''Waiting'' else st) = st"
    using assms(3) unfolding o by (rule if_not_P)
  have b: "(if st = ''Pending'' \<and>
               ((\<not> ?out \<and> snd (snd (statusStrings app)) = ''Succeeded'') \<or>
                snd (snd (statusStrings app)) = ''Running'' \<or> HealthStatus app = ''Progressing'')
            then ''Progressing'' else st) = st"
    using assms(4) unfolding o by (rule if_not_P)
  have c: "(if (st = ''Waiting'' \<or> st = ''Progressing'') \<and> isApplicationHealthy app
            then ''Healthy'' else st) = st"
    using assms(5) by (rule if_not_P)
  show ?thesis
    unfolding Status_next_from Let_def assms(2) a b c by (rule refl)
qed

text \<open>
  C1 (as amended). The statements of the pass run one after the other on the same entry, so
  a later rule applies to the status an earlier rule has just written. With progressive sync
  enabled: an application with no recorded entry, or whose observed revisions differ from the
  recorded ones, ends Waiting unless it is app-healthy, and then it ends Healthy in the same
  pass; an out-of-sync application recorded in a state other than Waiting or Pending ends
  Waiting; a Pending application with a succeeded sync (and not out of sync), a running
  operation or Progressing health ends Progressing unless it is app-healthy, and then Healthy;
  a Waiting or Progressing application that is app-healthy ends Healthy; in every other case
  the recorded status is kept.
\<close>

theorem C1_status_rules_run_in_sequence:
  fixes applicationSet :: "('s, 'z) ApplicationSet_scheme"
  assumes enabled: "progressiveSyncsRollingSyncStrategyEnabled applicationSet"
    and strings: "statusStrings app = (health, sync, phase)"
    and idx: "idx = findApplicationStatusIndex (ApplicationStatus applicationSet) (Name app)"
    and recorded: "recorded = ApplicationStatus applicationSet ! nat idx"
    and new: "new = Status (nextApplicationStatus now applicationSet appStepMap app)"
    and pendingRule: "pendingRule \<longleftrightarrow>
          (sync \<noteq> ''OutOfSync'' \<and> phase = ''Succeeded'') \<or> phase = ''Running'' \<or>
          health = ''Progressing''"
  shows "(isApplicationHealthy app \<longleftrightarrow>
            health = ''Healthy'' \<and> sync \<noteq> ''OutOfSync'' \<and> (phase = ''Succeeded'' \<or> phase = []))
       \<and> (idx = - 1 \<longrightarrow> new = (if isApplicationHealthy app then ''Healthy'' else ''Waiting''))
       \<and> (idx \<noteq> - 1 \<and> TargetRevisions recorded \<noteq> Revisions app \<longrightarrow>
            new = (if isApplicationHealthy app then ''Healthy'' else ''Waiting''))
       \<and> (idx \<noteq> - 1 \<and> TargetRevisions recorded = Revisions app \<and> sync = ''OutOfSync'' \<and>
          Status recorded \<noteq> ''Waiting'' \<and> Status recorded \<noteq> ''Pending'' \<longrightarrow> new = ''Waiting'')
       \<and> (idx \<noteq> - 1 \<and> TargetRevisions recorded = Revisions app \<and>
          Status recorded = ''Pending'' \<and> pendingRule \<longrightarrow>
            new = (if isApplicationHealthy app then ''Healthy'' else ''Progressing''))
       \<and> (idx \<noteq> - 1 \<and> (Status recorded = ''Waiting'' \<or> Status recorded = ''Progressing'') \<and>
          isApplicationHealthy app \<longrightarrow> new = ''Healthy'')
       \<and> (idx \<noteq> - 1 \<and> TargetRevisions recorded = Revisions app \<and>
          \<not> (sync = ''OutOfSync'' \<and> Status recorded \<noteq> ''Waiting'' \<and> Status recorded \<noteq> ''Pending'') \<and>
          \<not> (Status recorded = ''Pending'' \<and> pendingRule) \<and>
          \<not> ((Status recorded = ''Waiting'' \<or> Status recorded = ''Progressing'') \<and>
             isApplicationHealthy app) \<longrightarrow> new = Status recorded)"
proof -
  have h: "HealthStatus app = health" and s: "SyncStatus app = sync"
    and p: "snd (snd (statusStrings app)) = phase"
    using strings by (simp_all add: statusStrings_def)
  let ?st1 = "Status (onRevisionChange now appStepMap app
                (currentOrDefault now applicationSet appStepMap app))"
  have healthy: "isApplicationHealthy app \<longleftrightarrow>
      health = ''Healthy'' \<and> sync \<noteq> ''OutOfSync'' \<and> (phase = ''Succeeded'' \<or> phase = [])"
    by (simp add: isApplicationHealthy_iff h s p)
  have absent: "new = (if isApplicationHealthy app then ''Healthy'' else ''Waiting'')"
    if "idx = - 1"
  proof -
    have "?st1 = ''Waiting''" using that idx by (simp add: Status_first_two)
    then show ?thesis unfolding new by (rule next_from_Waiting)
  qed
  have changed: "new = (if isApplicationHealthy app then ''Healthy'' else ''Waiting'')"
    if "idx \<noteq> - 1" "TargetRevisions recorded \<noteq> Revisions app"
  proof -
    have "?st1 = ''Waiting''" using that idx recorded by (simp add: Status_first_two)
    then show ?thesis unfolding new by (rule next_from_Waiting)
  qed
  have same: "?st1 = Status recorded"
    if "idx \<noteq> - 1" "TargetRevisions recorded = Revisions app"
    using that idx recorded by (simp add: Status_first_two)
  have outdated: "new = ''Waiting''"
    if "idx \<noteq> - 1" "TargetRevisions recorded = Revisions app" "sync = ''OutOfSync''"
       "Status recorded \<noteq> ''Waiting''" "Status recorded \<noteq> ''Pending''"
    unfolding new
    by (rule next_from_outdated [OF enabled _ same [OF that(1,2)] that(4,5)])
       (simp add: s that(3))
  have pending: "new = (if isApplicationHealthy app then ''Healthy'' else ''Progressing'')"
    if "idx \<noteq> - 1" "TargetRevisions recorded = Revisions app"
       "Status recorded = ''Pending''" "pendingRule"
  proof -
    have "?st1 = ''Pending''" using same [OF that(1,2)] that(3) by simp
    moreover have "(SyncStatus app \<noteq> ''OutOfSync'' \<and> snd (snd (statusStrings app)) = ''Succeeded'')
        \<or> snd (snd (statusStrings app)) = ''Running'' \<or> HealthStatus app = ''Progressing''"
      using that(4) pendingRule by (simp add: h s p)
    ultimately show ?thesis unfolding new by (rule next_from_Pending [OF enabled])
  qed
  have toHealthy: "new = ''Healthy''"
    if "idx \<noteq> - 1" "Status recorded = ''Waiting'' \<or> Status recorded = ''Progressing''"
       "isApplicationHealthy app"
  proof (cases "TargetRevisions recorded = Revisions app")
    case False
    then show ?thesis using changed [OF that(1)] that(3) by simp
  next
    case True
    from that(2) show ?thesis
    proof
      assume "Status recorded = ''Waiting''"
      then have "?st1 = ''Waiting''" using same [OF that(1) True] by simp
      then have "Status (nextApplicationStatus now applicationSet appStepMap app) =
          (if isApplicationHealthy app then ''Healthy'' else ''Waiting'')"
        by (rule next_from_Waiting)
      then show ?thesis unfolding new using that(3) by simp
    next
      assume "Status recorded = ''Progressing''"
      then have "?st1 = ''Progressing''" using same [OF that(1) True] by simp
      then show ?thesis unfolding new using that(3) by (rule next_from_Progressing_healthy)
    qed
  qed
  have kept: "new = Status recorded"
    if "idx \<noteq> - 1" "TargetRevisions recorded = Revisions app"
       "\<not> (sync = ''OutOfSync'' \<and> Status recorded \<noteq> ''Waiting'' \<and> Status recorded \<noteq> ''Pending'')"
       "\<not> (Status recorded = ''Pending'' \<and> pendingRule)"
       "\<not> ((Status recorded = ''Waiting'' \<or> Status recorded = ''Progressing'') \<and>
           isApplicationHealthy app)"
    unfolding new
    by (rule next_unchanged [OF enabled same [OF that(1,2)]])
       (use that(3,4,5) pendingRule in \<open>simp_all add: h s p\<close>)
  show ?thesis
    using healthy absent changed outdated pending toHealthy kept by blast
qed

text \<open>
  Witness for C1: a recorded Pending entry whose application runs a sync operation ends
  Progressing.
\<close>

theorem C1_status_rules_witness:
  "progressiveSyncsRollingSyncStrategyEnabled
     (newAppSet (rollingSync [inStep]) [statusEntry ''app'' ''Pending''])
   \<and> findApplicationStatusIndex [statusEntry ''app'' ''Pending''] ''app'' = 0
   \<and> Status (nextApplicationStatus 7
        (newAppSet (rollingSync [inStep]) [statusEntry ''app'' ''Pending'']) noSteps runningApp)
     = ''Progressing''"
proof -
  let ?aset = "newAppSet (rollingSync [inStep]) [statusEntry ''app'' ''Pending'']"
  have en: "progressiveSyncsRollingSyncStrategyEnabled ?aset"
    by (simp add: strategy_defs newAppSet_def rollingSync_def)
  have ss: "statusStrings runningApp = (''Progressing'', ''Synced'', ''Running'')"
    by (simp add: statusStrings_def runningApp_def newApplication_def)
  have ix: "findApplicationStatusIndex [statusEntry ''app'' ''Pending''] ''app'' = 0"
    by (simp add: findApplicationStatusIndex_def statusEntry_def)
  have ix': "0 = findApplicationStatusIndex (ApplicationStatus ?aset) (Name runningApp)"
    by (simp add: findApplicationStatusIndex_def statusEntry_def newAppSet_def runningApp_def
        newApplication_def)
  have nh: "\<not> isApplicationHealthy runningApp"
    by (simp add: isApplicationHealthy_def ss)
  have "Status (nextApplicationStatus 7 ?aset noSteps runningApp) = ''Progressing''"
    using C1_status_rules_run_in_sequence [OF en ss ix' refl refl refl] nh
    by (simp add: newAppSet_def statusEntry_def runningApp_def newApplication_def)
  with en ix show ?thesis by simp
qed

text \<open>
  Counterexample to C1 as stated: an application with no recorded entry that is healthy and
  synced does not end Waiting. The default entry is Waiting, and the later statement for a
  Waiting and healthy application makes it Healthy in the same pass.
\<close>

theorem C1_no_entry_healthy_counterexample:
  "findApplicationStatusIndex (ApplicationStatus (newAppSet (rollingSync [inStep]) []))
     (Name healthyApp) = - 1
   \<and> Status (nextApplicationStatus 7 (newAppSet (rollingSync [inStep]) []) noSteps healthyApp)
     = ''Healthy''
   \<and> Status (nextApplicationStatus 7 (newAppSet (rollingSync [inStep]) []) noSteps healthyApp)
     \<noteq> ''Waiting''"
  by (simp add: nextApplicationStatus_def findApplicationStatusIndex_def newAppSet_def
      healthyApp_def newApplication_def statusStrings_def isApplicationHealthy_def Let_def
      transitionTo_def currentOrDefault_def onRevisionChange_def onOutdated_def onPending_def
      onWaitingHealthy_def onProgressingHealthy_def)

subsection \<open>Writing the status list\<close>

lemma findIndexFrom_range:
  "0 \<le> i \<Longrightarrow> findIndexFrom xs n i = - 1 \<or> (i \<le> findIndexFrom xs n i \<and> findIndexFrom xs n i < i + int (length xs))"
proof (induction xs arbitrary: i)
  case Nil then show ?case by simp
next
  case (Cons x xs)
  have "0 \<le> i + 1" using Cons.prems by simp
  from Cons.IH [OF this] show ?case
    by (cases "Application x = n") auto
qed

lemma findIndexFrom_absent:
  "0 \<le> i \<Longrightarrow> findIndexFrom xs n i = - 1 \<longleftrightarrow> n \<notin> Application ` set xs"
proof (induction xs arbitrary: i)
  case Nil then show ?case by simp
next
  case (Cons x xs)
  have "0 \<le> i + 1" using Cons.prems by simp
  from Cons.IH [OF this] Cons.prems show ?case by auto
qed

lemma findIndexFrom_nth:
  "0 \<le> i \<Longrightarrow> findIndexFrom xs n i \<noteq> - 1 \<Longrightarrow>
     Application (xs ! nat (findIndexFrom xs n i - i)) = n"
proof (induction xs arbitrary: i)
  case Nil then show ?case by simp
next
  case (Cons x xs)
  show ?case
  proof (cases "Application x = n")
    case True then show ?thesis by simp
  next
    case False
    have i1: "0 \<le> i + 1" using Cons.prems by simp
    have ne: "findIndexFrom xs n (i + 1) \<noteq> - 1" using Cons.prems False by simp
    have ge: "i + 1 \<le> findIndexFrom xs n (i + 1)"
      using findIndexFrom_range [OF i1, of xs n] ne by auto
    have "nat (findIndexFrom xs n (i + 1) - i) = Suc (nat (findIndexFrom xs n (i + 1) - (i + 1)))"
      using ge by simp
    then show ?thesis using Cons.IH [OF i1 ne] False by simp
  qed
qed

lemma findApplicationStatusIndex_entry:
  assumes "findApplicationStatusIndex xs n \<noteq> - 1"
  shows "Application (xs ! nat (findApplicationStatusIndex xs n)) = n"
    and "xs ! nat (findApplicationStatusIndex xs n) \<in> set xs"
proof -
  show "Application (xs ! nat (findApplicationStatusIndex xs n)) = n"
    using findIndexFrom_nth [of 0 xs n] assms by (simp add: findApplicationStatusIndex_def)
  have "0 \<le> findIndexFrom xs n 0 \<and> findIndexFrom xs n 0 < int (length xs)"
    using findIndexFrom_range [of 0 xs n] assms by (simp add: findApplicationStatusIndex_def)
  then have "nat (findIndexFrom xs n 0) < length xs" by linarith
  then show "xs ! nat (findApplicationStatusIndex xs n) \<in> set xs"
    unfolding findApplicationStatusIndex_def by (rule nth_mem)
qed

lemma findApplicationStatusIndex_distinct:
  assumes "distinct (map Application xs)" "r \<in> set xs"
  shows "findApplicationStatusIndex xs (Application r) \<noteq> - 1"
    and "xs ! nat (findApplicationStatusIndex xs (Application r)) = r"
proof -
  show ne: "findApplicationStatusIndex xs (Application r) \<noteq> - 1"
    using findIndexFrom_absent [of 0 xs "Application r"] assms(2)
    by (simp add: findApplicationStatusIndex_def)
  from findApplicationStatusIndex_entry [OF ne]
  have "Application (xs ! nat (findApplicationStatusIndex xs (Application r))) = Application r"
    and "xs ! nat (findApplicationStatusIndex xs (Application r)) \<in> set xs" by simp_all
  with assms show "xs ! nat (findApplicationStatusIndex xs (Application r)) = r"
    by (meson distinct_map inj_onD)
qed

lemma statusChanged_iff:
  "statusChanged recorded supplied \<longleftrightarrow> (\<exists>e\<in>set supplied. \<not> entryUnchanged recorded e)"
  by (induction supplied) (auto simp: Let_def entryUnchanged_def)

lemma no_write:
  assumes "length supplied = length (ApplicationStatus aset)"
    and "\<forall>e\<in>set supplied. entryUnchanged (ApplicationStatus aset) e"
  shows "setAppSetApplicationStatus cl aset supplied = (None, (aset, cl))"
  using assms by (simp add: setAppSetApplicationStatus_def statusChanged_iff)

lemma statusListWritten_refl: "statusListWritten L cl cl"
  by (simp add: statusListWritten_def)

lemma statusListWritten_trans:
  "statusListWritten L cl cl' \<Longrightarrow> statusListWritten L cl' cl'' \<Longrightarrow> statusListWritten L cl cl''"
proof -
  assume 1: "statusListWritten L cl cl'" and 2: "statusListWritten L cl' cl''"
  have ap: "apps cl'' = apps cl" using 1 2 by (simp add: statusListWritten_def)
  from 1 consider (same) "appSet cl' = appSet cl"
    | (wrote) stored where "appSet cl = Some stored" "appSet cl' = Some (stored\<lparr>ApplicationStatus := L\<rparr>)"
    unfolding statusListWritten_def by blast
  then show ?thesis
  proof cases
    case same
    then show ?thesis using 2 ap by (simp add: statusListWritten_def)
  next
    case wrote
    from 2 have "appSet cl'' = appSet cl' \<or> appSet cl'' = Some (stored\<lparr>ApplicationStatus := L\<rparr>)"
      using wrote(2) by (auto simp: statusListWritten_def)
    then have "appSet cl'' = Some (stored\<lparr>ApplicationStatus := L\<rparr>)"
      using wrote(2) by auto
    then show ?thesis using wrote(1) ap by (simp add: statusListWritten_def)
  qed
qed

lemma applicationStatusAttempt_writes:
  assumes "applicationStatusAttempt (a, cl) = (e, (a', cl'))"
  shows "ApplicationStatus a' = ApplicationStatus a \<and> statusListWritten (ApplicationStatus a) cl cl'"
  using assms
  by (auto simp: applicationStatusAttempt_def clientGetAppSet_def clientStatusUpdate_def
      statusListWritten_def answered_def Let_def
      split: option.splits if_splits sum.splits prod.splits)

lemma RetryOnConflict_status_writes:
  "RetryOnConflict n applicationStatusAttempt (a, cl) = (e, (a', cl')) \<Longrightarrow>
     ApplicationStatus a' = ApplicationStatus a \<and> statusListWritten (ApplicationStatus a) cl cl'"
proof (induction n arbitrary: a cl)
  case 0
  then show ?case by (simp add: statusListWritten_refl)
next
  case (Suc n)
  obtain e1 a1 cl1 where step: "applicationStatusAttempt (a, cl) = (e1, (a1, cl1))"
    by (metis prod.exhaust)
  note w1 = applicationStatusAttempt_writes [OF step]
  show ?case
  proof (cases "\<exists>err. e1 = Some err \<and> IsConflict err \<and> n > 0")
    case True
    then have "RetryOnConflict n applicationStatusAttempt (a1, cl1) = (e, (a', cl'))"
      using Suc.prems step by auto
    from Suc.IH [OF this] w1 show ?thesis
      by (auto intro: statusListWritten_trans)
  next
    case False
    then have "(e1, (a1, cl1)) = (e, (a', cl'))"
      using Suc.prems step by (auto split: option.splits if_splits)
    with w1 show ?thesis by simp
  qed
qed

lemma setAppSetApplicationStatus_writes:
  assumes "setAppSetApplicationStatus cl aset supplied = (e, (aset', cl'))"
  shows "statusListWritten (sort_key Application supplied) cl cl'"
proof (cases "length supplied \<noteq> length (ApplicationStatus aset) \<or> statusChanged (ApplicationStatus aset) supplied")
  case False
  then have "(e, (aset', cl')) = (None, (aset, cl))"
    using assms by (auto simp: setAppSetApplicationStatus_def)
  then show ?thesis by (simp add: statusListWritten_refl)
next
  case True
  let ?a0 = "aset\<lparr>ApplicationStatus := sort_key Application supplied\<rparr>"
  obtain e1 where "RetryOnConflict DefaultRetry applicationStatusAttempt (?a0, cl) = (e1, (aset', cl'))"
    using assms True
    by (auto simp: setAppSetApplicationStatus_def Let_def split: option.splits prod.splits if_splits)
  from RetryOnConflict_status_writes [OF this] show ?thesis by simp
qed


text \<open>
  C10. \<^const>\<open>setAppSetApplicationStatus\<close> makes no client call and leaves the ApplicationSet
  as it is when the supplied list has the length of the recorded one and, for every supplied
  entry, the recorded entry found for its application has the same Message, Status and Step;
  when the recorded names are distinct this is: some recorded entry of that application has
  them. So supplying the recorded list with other TargetRevisions and LastTransitionTime
  writes nothing. And when the stored ApplicationSet changes, its status list is the
  supplied list sorted by application name.
\<close>

theorem C10_status_write_skipped_or_sorted:
  fixes cl :: "'s Cluster"
  shows "(length supplied = length (ApplicationStatus aset) \<and>
          (\<forall>e\<in>set supplied. entryUnchanged (ApplicationStatus aset) e) \<longrightarrow>
            setAppSetApplicationStatus cl aset supplied = (None, (aset, cl)))
       \<and> (distinct (map Application (ApplicationStatus aset)) \<and>
          length supplied = length (ApplicationStatus aset) \<and>
          (\<forall>e\<in>set supplied. \<exists>r\<in>set (ApplicationStatus aset).
              Application r = Application e \<and> Message r = Message e \<and>
              Status r = Status e \<and> Step r = Step e) \<longrightarrow>
            setAppSetApplicationStatus cl aset supplied = (None, (aset, cl)))
       \<and> (distinct (map Application (ApplicationStatus aset)) \<longrightarrow>
            setAppSetApplicationStatus cl aset
              (map (\<lambda>r. r\<lparr>TargetRevisions := tr r, LastTransitionTime := lt r\<rparr>)
                 (ApplicationStatus aset)) = (None, (aset, cl)))
       \<and> (\<forall>written.
            appSet (snd (snd (setAppSetApplicationStatus cl aset supplied))) = Some written \<and>
            appSet (snd (snd (setAppSetApplicationStatus cl aset supplied))) \<noteq> appSet cl \<longrightarrow>
              ApplicationStatus written = sort_key Application supplied \<and>
              sorted (map Application (ApplicationStatus written)))"
proof (intro conjI impI allI)
  assume "length supplied = length (ApplicationStatus aset) \<and>
          (\<forall>e\<in>set supplied. entryUnchanged (ApplicationStatus aset) e)"
  then show "setAppSetApplicationStatus cl aset supplied = (None, (aset, cl))"
    using no_write by blast
next
  assume a: "distinct (map Application (ApplicationStatus aset)) \<and>
          length supplied = length (ApplicationStatus aset) \<and>
          (\<forall>e\<in>set supplied. \<exists>r\<in>set (ApplicationStatus aset).
              Application r = Application e \<and> Message r = Message e \<and>
              Status r = Status e \<and> Step r = Step e)"
  have "entryUnchanged (ApplicationStatus aset) e" if "e \<in> set supplied" for e
  proof -
    from a that obtain r where r: "r \<in> set (ApplicationStatus aset)"
      "Application r = Application e" "Message r = Message e" "Status r = Status e"
      "Step r = Step e" by blast
    from a have d: "distinct (map Application (ApplicationStatus aset))" by simp
    from findApplicationStatusIndex_distinct [OF d r(1)] r(2-5)
    show ?thesis by (simp add: entryUnchanged_def)
  qed
  with a show "setAppSetApplicationStatus cl aset supplied = (None, (aset, cl))"
    using no_write by blast
next
  assume d: "distinct (map Application (ApplicationStatus aset))"
  let ?supplied = "map (\<lambda>r. r\<lparr>TargetRevisions := tr r, LastTransitionTime := lt r\<rparr>)
                     (ApplicationStatus aset)"
  have "entryUnchanged (ApplicationStatus aset) e" if "e \<in> set ?supplied" for e
  proof -
    from that obtain r where r: "r \<in> set (ApplicationStatus aset)"
      "e = r\<lparr>TargetRevisions := tr r, LastTransitionTime := lt r\<rparr>" by auto
    from findApplicationStatusIndex_distinct [OF d r(1)] r(2)
    show ?thesis by (simp add: entryUnchanged_def)
  qed
  then show "setAppSetApplicationStatus cl aset ?supplied = (None, (aset, cl))"
    using no_write [of ?supplied aset cl] by simp
next
  fix written
  assume w: "appSet (snd (snd (setAppSetApplicationStatus cl aset supplied))) = Some written \<and>
     appSet (snd (snd (setAppSetApplicationStatus cl aset supplied))) \<noteq> appSet cl"
  obtain e aset' cl' where res: "setAppSetApplicationStatus cl aset supplied = (e, (aset', cl'))"
    by (metis prod.exhaust)
  from setAppSetApplicationStatus_writes [OF res] w res
  show "ApplicationStatus written = sort_key Application supplied"
    by (auto simp: statusListWritten_def)
  then show "sorted (map Application (ApplicationStatus written))"
    by simp
qed

text \<open>
  Witness for C10: an entry supplied with other TargetRevisions and LastTransitionTime
  writes nothing, and two new entries supplied in the order b, a are stored in the order a, b.
\<close>

theorem C10_status_write_witness:
  "distinct (map Application [statusEntry ''a'' ''Healthy''])
   \<and> setAppSetApplicationStatus
        (newCluster [] (Some (newAppSet (rollingSync [inStep]) [statusEntry ''a'' ''Healthy''])) noFaults)
        (newAppSet (rollingSync [inStep]) [statusEntry ''a'' ''Healthy''])
        [observedLater (statusEntry ''a'' ''Healthy'')]
      = (None, (newAppSet (rollingSync [inStep]) [statusEntry ''a'' ''Healthy''],
           newCluster [] (Some (newAppSet (rollingSync [inStep]) [statusEntry ''a'' ''Healthy''])) noFaults))
   \<and> appSet (snd (snd (setAppSetApplicationStatus
        (newCluster [] (Some (newAppSet (rollingSync [inStep]) [])) noFaults)
        (newAppSet (rollingSync [inStep]) [])
        [statusEntry ''b'' ''Waiting'', statusEntry ''a'' ''Waiting''])))
      = Some (newAppSet (rollingSync [inStep])
          [statusEntry ''a'' ''Waiting'', statusEntry ''b'' ''Waiting''])
   \<and> sorted (map Application (ApplicationStatus (newAppSet (rollingSync [inStep])
          [statusEntry ''a'' ''Waiting'', statusEntry ''b'' ''Waiting''])))"
proof -
  let ?rec = "newAppSet (rollingSync [inStep]) [statusEntry ''a'' ''Healthy'']"
  let ?kept = "newCluster [] (Some ?rec) noFaults"
  let ?empty = "newAppSet (rollingSync [inStep]) []"
  let ?fresh = "newCluster [] (Some ?empty) noFaults"
  let ?new = "[statusEntry ''b'' ''Waiting'', statusEntry ''a'' ''Waiting'']"
  let ?sorted = "newAppSet (rollingSync [inStep])
                   [statusEntry ''a'' ''Waiting'', statusEntry ''b'' ''Waiting'']"
  have d: "distinct (map Application (ApplicationStatus ?rec))"
    by (simp add: newAppSet_def)
  have skip: "setAppSetApplicationStatus ?kept ?rec [observedLater (statusEntry ''a'' ''Healthy'')]
      = (None, (?rec, ?kept))"
    using C10_status_write_skipped_or_sorted [where supplied = "[]" and aset = ?rec and cl = ?kept
        and tr = "\<lambda>r. Some [''abc123'']" and lt = "\<lambda>r. Some 9"] d
    by (simp add: newAppSet_def observedLater_def)
  have stored: "appSet (snd (snd (setAppSetApplicationStatus ?fresh ?empty ?new))) = Some ?sorted"
    by (simp add: setAppSetApplicationStatus_def DefaultRetry_def eval_nat_numeral
        applicationStatusAttempt_def clientGetAppSet_def clientStatusUpdate_def injected_def
        answered_def sameObject_def newCluster_def newAppSet_def noFaults_def statusEntry_def
        findApplicationStatusIndex_def Let_def)
  have changed: "appSet (snd (snd (setAppSetApplicationStatus ?fresh ?empty ?new))) \<noteq> appSet ?fresh"
    unfolding stored by (simp add: newCluster_def newAppSet_def statusEntry_def)
  have srt: "sorted (map Application (ApplicationStatus ?sorted))"
    using C10_status_write_skipped_or_sorted [where supplied = ?new and aset = ?empty
        and cl = ?fresh and tr = "\<lambda>r. None" and lt = "\<lambda>r. None"] stored changed by blast
  have d': "distinct (map Application [statusEntry ''a'' ''Healthy''])"
    by simp
  from d' skip stored srt show ?thesis
    by blast
qed

subsection \<open>Errors of the loops over the children\<close>

lemma deleteLoop_reports_nothing:
  "fst (deleteLoop getDestinationCluster now clusterList m None cl current) = None"
  by (induction current arbitrary: cl) (auto split: prod.splits option.splits)

lemma deleteInCluster_child_errors_lost:
  "listClusters = Inr clusterList \<Longrightarrow>
   getCurrentApplications cl applicationSet = (Inr current, cl') \<Longrightarrow>
   fst (deleteInCluster getDestinationCluster listClusters now cl applicationSet desired) = None"
  by (simp add: deleteInCluster_def deleteLoop_reports_nothing)

text \<open>
  C6. Both loops go on after a child fails, but only the create-or-update loop returns the
  first error. In \<^const>\<open>deleteLoop\<close> the guard is \<^verbatim>\<open>firstError != nil\<close>, so no error is ever
  recorded: with one live child that is not desired and whose Delete call fails (the second
  client call, after the List), \<^const>\<open>deleteInCluster\<close> returns no error and the child is
  still there. The create-or-update loop returns the first of two errors.
\<close>

theorem C6_delete_loop_drops_child_error:
  "fst (clientDelete 0
          (snd (getCurrentApplications
             (newCluster [ownedApp ''old'' noLabels] None (failingCall 1 (ErrOther ''delete failed'')))
             (newAppSet None [])))
          (ownedApp ''old'' noLabels)) = Some (ErrOther ''delete failed'')
   \<and> fst (deleteInCluster unknownDestination (Inr []) 0
          (newCluster [ownedApp ''old'' noLabels] None (failingCall 1 (ErrOther ''delete failed'')))
          (newAppSet None []) []) = None
   \<and> map Name (apps (snd (deleteInCluster unknownDestination (Inr []) 0
          (newCluster [ownedApp ''old'' noLabels] None (failingCall 1 (ErrOther ''delete failed'')))
          (newAppSet None []) []))) = [''old'']"
  by (simp add: deleteInCluster_def getCurrentApplications_def clientDelete_def
      removeFinalizerOnInvalidDestination_def injected_def answered_def newCluster_def
      failingCall_def ownedApp_def newApplication_def newAppSet_def controllerRef_def
      appControllerIndexer_def noLabels_def)

subsection \<open>The condition routine\<close>

lemma conditionsChanged_iff:
  "length cur = length prev \<Longrightarrow>
   conditionsChanged cur prev \<longleftrightarrow> map conditionFields cur \<noteq> map conditionFields prev"
  by (induction cur prev rule: list_induct2)
     (auto simp: conditionsChanged_def conditionFields_def)

lemma needToUpdate_iff:
  "(if length cur \<noteq> length prev then True else conditionsChanged cur prev) \<longleftrightarrow>
     map conditionFields cur \<noteq> map conditionFields prev"
proof (cases "length cur = length prev")
  case True
  then show ?thesis by (simp add: conditionsChanged_iff)
next
  case False
  then have "map conditionFields cur \<noteq> map conditionFields prev"
    by (metis length_map)
  with False show ?thesis by simp
qed

lemma no_condition_write:
  assumes "evaluateCondition aset cond pg = (new, ev)"
    and "map conditionFields (sc now (Conditions aset) new ev) = map conditionFields (Conditions aset)"
  shows "setApplicationSetStatusCondition sc now cl aset cond pg =
           (None, (aset\<lparr>Conditions := sc now (Conditions aset) new ev\<rparr>, cl))"
  using assms by (simp add: setApplicationSetStatusCondition_def needToUpdate_iff Let_def)

lemma conditionsAttempt_effect:
  assumes "conditionsAttempt sc now new ev (a, cl) = (e, (a', cl'))"
  shows "apps cl' = apps cl \<and>
         ((a' = a \<and> appSet cl' = appSet cl) \<or>
          (\<exists>stored. appSet cl = Some stored \<and>
             a' = stored\<lparr>Conditions := sc now (Conditions stored) new ev\<rparr> \<and>
             appSet cl' = Some a' \<and> e = None))"
  using assms
  by (auto simp: conditionsAttempt_def clientGetAppSet_def clientStatusUpdate_def
      answered_def Let_def
      split: option.splits if_splits sum.splits prod.splits)

lemma RetryOnConflict_conditions_effect:
  "RetryOnConflict n (conditionsAttempt sc now new ev) (a, cl) = (e, (a', cl')) \<Longrightarrow>
   apps cl' = apps cl \<and>
         ((a' = a \<and> appSet cl' = appSet cl) \<or>
          (\<exists>stored. appSet cl = Some stored \<and>
             a' = stored\<lparr>Conditions := sc now (Conditions stored) new ev\<rparr> \<and>
             appSet cl' = Some a' \<and> e = None))"
proof (induction n arbitrary: cl)
  case 0
  then show ?case by simp
next
  case (Suc n)
  obtain e1 a1 cl1 where step: "conditionsAttempt sc now new ev (a, cl) = (e1, (a1, cl1))"
    by (metis prod.exhaust)
  note eff = conditionsAttempt_effect [OF step]
  show ?case
  proof (cases "\<exists>err. e1 = Some err \<and> IsConflict err \<and> n > 0")
    case True
    then have a1: "a1 = a" and s1: "appSet cl1 = appSet cl" and p1: "apps cl1 = apps cl"
      using eff by auto
    have "RetryOnConflict n (conditionsAttempt sc now new ev) (a, cl1) = (e, (a', cl'))"
      using Suc.prems step True a1 by auto
    from Suc.IH [OF this] s1 p1 show ?thesis by simp
  next
    case False
    then have "(e1, (a1, cl1)) = (e, (a', cl'))"
      using Suc.prems step by (auto split: option.splits if_splits)
    with eff show ?thesis by simp
  qed
qed

lemma setApplicationSetStatusCondition_effect:
  assumes ev: "evaluateCondition aset cond pg = (new, ev)"
    and res: "setApplicationSetStatusCondition sc now cl aset cond pg = (e, (a', cl'))"
  shows "apps cl' = apps cl \<and>
         ((a' = aset\<lparr>Conditions := sc now (Conditions aset) new ev\<rparr> \<and> appSet cl' = appSet cl) \<or>
          (\<exists>stored. appSet cl = Some stored \<and>
             a' = stored\<lparr>Conditions := sc now (Conditions stored) new ev\<rparr> \<and>
             appSet cl' = Some a'))"
proof (cases "map conditionFields (sc now (Conditions aset) new ev) = map conditionFields (Conditions aset)")
  case True
  from no_condition_write [where sc = sc and now = now and cl = cl, OF ev True] res
  show ?thesis by simp
next
  case False
  let ?a0 = "aset\<lparr>Conditions := sc now (Conditions aset) new ev\<rparr>"
  obtain e1 where "RetryOnConflict DefaultRetry (conditionsAttempt sc now new ev) (?a0, cl) = (e1, (a', cl'))"
    using res ev False
    by (auto simp: setApplicationSetStatusCondition_def needToUpdate_iff Let_def
        split: option.splits prod.splits if_splits)
  from RetryOnConflict_conditions_effect [OF this] show ?thesis by blast
qed

lemma evaluateCondition_rolling:
  assumes "isRollingSyncStrategy a = isRollingSyncStrategy b"
  shows "evaluateCondition a cond pg = evaluateCondition b cond pg"
  unfolding evaluateCondition_def assms by (rule refl)

lemma isRolling_Conditions_update [simp]:
  "isRollingSyncStrategy (a\<lparr>Conditions := cs\<rparr>) = isRollingSyncStrategy a"
  by (simp add: isRollingSyncStrategy_def)

lemma second_call_writes_nothing:
  fixes cl :: "'s Cluster"
  assumes ev: "evaluateCondition aset cond pg = (new, ev)"
    and idem: "\<And>t t' X. map conditionFields (sc t' (sc t X new ev) new ev) = map conditionFields (sc t X new ev)"
    and same: "\<And>stored. appSet cl = Some stored \<Longrightarrow> isRollingSyncStrategy stored = isRollingSyncStrategy aset"
    and first: "setApplicationSetStatusCondition sc now cl aset cond pg = (e1, (a1, cl1))"
  shows "\<exists>a2. setApplicationSetStatusCondition sc now' cl1 a1 cond pg = (None, (a2, cl1))"
proof -
  from setApplicationSetStatusCondition_effect [OF ev first]
  have "(\<exists>X. Conditions a1 = sc now X new ev) \<and> isRollingSyncStrategy a1 = isRollingSyncStrategy aset"
    using same by auto
  then obtain X where X: "Conditions a1 = sc now X new ev"
    and r: "isRollingSyncStrategy a1 = isRollingSyncStrategy aset" by blast
  have ev1: "evaluateCondition a1 cond pg = (new, ev)"
    using evaluateCondition_rolling [OF r] ev by simp
  have "map conditionFields (sc now' (Conditions a1) new ev) = map conditionFields (Conditions a1)"
    unfolding X by (rule idem)
  from no_condition_write [where sc = sc and now = now' and cl = cl1, OF ev1 this]
  show ?thesis by blast
qed

lemma conditionFields_stamped [simp]: "conditionFields (stamped t c) = conditionFields c"
  by (simp add: conditionFields_def stamped_def split: option.splits)

lemma Type_stamped [simp]: "Type (stamped t c) = Type c"
  by (simp add: stamped_def split: option.splits)

lemma CondStatus_stamped [simp]: "CondStatus (stamped t c) = CondStatus c"
  by (simp add: stamped_def split: option.splits)

lemma SetConditions_idempotent:
  "map conditionFields (SetConditions t' (SetConditions t X new ev) new ev) =
   map conditionFields (SetConditions t X new ev)"
proof -
  have "filter (\<lambda>c. \<not> evaluated ev (Type c)) (map (stamped t) (filter (\<lambda>c. evaluated ev (Type c)) new)) = []"
    by (simp add: filter_empty_conv)
  then show ?thesis
    by (simp add: SetConditions_def comp_def)
qed

lemmas condition_consts =
  ApplicationSetConditionErrorOccurred_def ApplicationSetConditionParametersGenerated_def
  ApplicationSetConditionResourcesUpToDate_def ApplicationSetConditionRolloutProgressing_def
  ApplicationSetConditionStatusTrue_def ApplicationSetConditionStatusFalse_def
  ApplicationSetReasonErrorOccurred_def ApplicationSetReasonParametersGenerated_def

lemma statusesOf_append [simp]: "statusesOf (xs @ ys) t = statusesOf xs t @ statusesOf ys t"
  by (simp add: statusesOf_def)

lemma statusesOf_SetConditions:
  assumes "evaluated ev t"
  shows "statusesOf (SetConditions now X new ev) t = statusesOf new t"
proof -
  have 1: "statusesOf (filter (\<lambda>c. \<not> evaluated ev (Type c)) X) t = []"
    using assms by (auto simp: statusesOf_def filter_empty_conv)
  have 2: "filter (\<lambda>c. Type c = t) (map (stamped now) (filter (\<lambda>c. evaluated ev (Type c)) new))
           = map (stamped now) (filter (\<lambda>c. Type c = t) new)"
    using assms by (induction new) auto
  have 3: "map CondStatus (map (stamped now) xs) = map CondStatus xs" for xs
    by (induction xs) (auto simp: stamped_def split: option.splits)
  show ?thesis
    unfolding SetConditions_def statusesOf_append 1
    by (simp add: statusesOf_def 2 3)
qed

lemma hasCondition_SetConditions:
  assumes "c \<in> set new" "evaluated ev (Type c)"
  shows "hasCondition (SetConditions now X new ev) (Type c) (CondStatus c) (Reason c) (CondMessage c)"
proof -
  have mem: "stamped now c \<in> set (SetConditions now X new ev)"
    using assms by (simp add: SetConditions_def)
  have "conditionFields c \<in> conditionFields ` set (SetConditions now X new ev)"
    using mem conditionFields_stamped [of now c] by (metis imageI)
  then show ?thesis
    by (simp add: hasCondition_def conditionFields_def)
qed

lemma eval_upToDate:
  assumes "Type cond = ApplicationSetConditionResourcesUpToDate"
    "CondStatus cond = ApplicationSetConditionStatusTrue"
  shows "evaluated (snd (evaluateCondition aset cond pg)) ApplicationSetConditionErrorOccurred"
    and "evaluated (snd (evaluateCondition aset cond pg)) ApplicationSetConditionResourcesUpToDate"
    and "statusesOf (fst (evaluateCondition aset cond pg)) ApplicationSetConditionErrorOccurred
           = [ApplicationSetConditionStatusFalse]"
    and "\<lparr>Type = ApplicationSetConditionErrorOccurred, CondMessage = CondMessage cond,
          CondLastTransitionTime = None, Reason = Reason cond,
          CondStatus = ApplicationSetConditionStatusFalse\<rparr> \<in> set (fst (evaluateCondition aset cond pg))"
    and "cond \<in> set (fst (evaluateCondition aset cond pg))"
  using assms
  by (simp_all add: evaluateCondition_def Let_def evaluated_def statusesOf_def condition_consts
      getParametersGeneratedCondition_def)

lemma eval_errorOccurred:
  assumes "Type cond = ApplicationSetConditionErrorOccurred"
    "CondStatus cond = ApplicationSetConditionStatusTrue"
  shows "evaluated (snd (evaluateCondition aset cond pg)) ApplicationSetConditionResourcesUpToDate"
    and "statusesOf (fst (evaluateCondition aset cond pg)) ApplicationSetConditionResourcesUpToDate
           = [ApplicationSetConditionStatusFalse]"
    and "\<lparr>Type = ApplicationSetConditionResourcesUpToDate, CondMessage = CondMessage cond,
          CondLastTransitionTime = None, Reason = ApplicationSetReasonErrorOccurred,
          CondStatus = ApplicationSetConditionStatusFalse\<rparr> \<in> set (fst (evaluateCondition aset cond pg))"
  using assms
  by (simp_all add: evaluateCondition_def Let_def evaluated_def statusesOf_def condition_consts
      getParametersGeneratedCondition_def)

lemma eval_parametersGenerated:
  assumes "Type cond \<noteq> ApplicationSetConditionParametersGenerated"
  shows "evaluated (snd (evaluateCondition aset cond pg)) ApplicationSetConditionParametersGenerated"
    and "statusesOf (fst (evaluateCondition aset cond pg)) ApplicationSetConditionParametersGenerated
           = [if pg then ApplicationSetConditionStatusTrue else ApplicationSetConditionStatusFalse]"
  using assms
  by (simp_all add: evaluateCondition_def Let_def evaluated_def statusesOf_def condition_consts
      getParametersGeneratedCondition_def)

lemma eval_rolloutProgressing:
  assumes "\<not> isRollingSyncStrategy aset" "Type cond \<noteq> ApplicationSetConditionRolloutProgressing"
  shows "evaluated (snd (evaluateCondition aset cond pg)) ApplicationSetConditionRolloutProgressing"
    and "statusesOf (fst (evaluateCondition aset cond pg)) ApplicationSetConditionRolloutProgressing = []"
  using assms
  by (simp_all add: evaluateCondition_def Let_def evaluated_def statusesOf_def condition_consts
      getParametersGeneratedCondition_def)


lemma crossConsistent_SetConditions:
  "crossConsistent (isRollingSyncStrategy aset) cond pg
     (SetConditions now X (fst (evaluateCondition aset cond pg))
        (snd (evaluateCondition aset cond pg)))"
proof -
  let ?new = "fst (evaluateCondition aset cond pg)"
  let ?ev = "snd (evaluateCondition aset cond pg)"
  let ?cs = "SetConditions now X ?new ?ev"
  have 1: "hasCondition ?cs ApplicationSetConditionResourcesUpToDate ApplicationSetConditionStatusTrue
             (Reason cond) (CondMessage cond) \<and>
           hasCondition ?cs ApplicationSetConditionErrorOccurred ApplicationSetConditionStatusFalse
             (Reason cond) (CondMessage cond) \<and>
           statusesOf ?cs ApplicationSetConditionErrorOccurred = [ApplicationSetConditionStatusFalse]"
    if t: "Type cond = ApplicationSetConditionResourcesUpToDate"
      and st: "CondStatus cond = ApplicationSetConditionStatusTrue"
  proof -
    note e = eval_upToDate [OF t st, of aset pg]
    have a: "hasCondition ?cs (Type cond) (CondStatus cond) (Reason cond) (CondMessage cond)"
      using hasCondition_SetConditions [OF e(5), where now = now and X = X] e(2) t by simp
    have b: "hasCondition ?cs ApplicationSetConditionErrorOccurred ApplicationSetConditionStatusFalse
               (Reason cond) (CondMessage cond)"
      using hasCondition_SetConditions [OF e(4), where now = now and X = X] e(1) by simp
    have c: "statusesOf ?cs ApplicationSetConditionErrorOccurred = [ApplicationSetConditionStatusFalse]"
      using statusesOf_SetConditions [OF e(1), where now = now and X = X and new = ?new] e(3) by simp
    from a b c t st show ?thesis by simp
  qed
  have 2: "hasCondition ?cs ApplicationSetConditionResourcesUpToDate ApplicationSetConditionStatusFalse
             ApplicationSetReasonErrorOccurred (CondMessage cond) \<and>
           statusesOf ?cs ApplicationSetConditionResourcesUpToDate = [ApplicationSetConditionStatusFalse]"
    if t: "Type cond = ApplicationSetConditionErrorOccurred"
      and st: "CondStatus cond = ApplicationSetConditionStatusTrue"
  proof -
    note e = eval_errorOccurred [OF t st, of aset pg]
    have b: "hasCondition ?cs ApplicationSetConditionResourcesUpToDate ApplicationSetConditionStatusFalse
               ApplicationSetReasonErrorOccurred (CondMessage cond)"
      using hasCondition_SetConditions [OF e(3), where now = now and X = X] e(1) by simp
    have c: "statusesOf ?cs ApplicationSetConditionResourcesUpToDate = [ApplicationSetConditionStatusFalse]"
      using statusesOf_SetConditions [OF e(1), where now = now and X = X and new = ?new] e(2) by simp
    from b c show ?thesis by simp
  qed
  have 3: "statusesOf ?cs ApplicationSetConditionParametersGenerated =
             [if pg then ApplicationSetConditionStatusTrue else ApplicationSetConditionStatusFalse]"
    if t: "Type cond \<noteq> ApplicationSetConditionParametersGenerated"
  proof -
    note e = eval_parametersGenerated [OF t, of aset pg]
    show ?thesis
      using statusesOf_SetConditions [OF e(1), where now = now and X = X and new = ?new] e(2)
      by simp
  qed
  have 4: "statusesOf ?cs ApplicationSetConditionRolloutProgressing = []"
    if r: "\<not> isRollingSyncStrategy aset"
      and t: "Type cond \<noteq> ApplicationSetConditionRolloutProgressing"
  proof -
    note e = eval_rolloutProgressing [OF r t, of pg]
    show ?thesis
      using statusesOf_SetConditions [OF e(1), where now = now and X = X and new = ?new] e(2)
      by simp
  qed
  show ?thesis
    unfolding crossConsistent_def using 1 2 3 4 by blast
qed

text \<open>
  C9. With any \<^verbatim>\<open>SetConditions\<close>: when the list it computes has, position by position, the
  type, reason, status and message of the prior list, the routine returns without a client
  call. Hence, when \<^verbatim>\<open>SetConditions\<close> applied twice gives those fields as applied once, and
  the stored ApplicationSet agrees with the local one on the RollingSync strategy, a second
  run with the same condition and flag leaves the store as the first run left it.
\<close>

theorem C9_condition_write_skipped_when_unchanged:
  fixes cl :: "'s Cluster"
  assumes "evaluateCondition aset cond pg = (new, ev)"
  shows "(map conditionFields (sc now (Conditions aset) new ev) = map conditionFields (Conditions aset) \<longrightarrow>
            setApplicationSetStatusCondition sc now cl aset cond pg =
              (None, (aset\<lparr>Conditions := sc now (Conditions aset) new ev\<rparr>, cl)))
       \<and> ((\<forall>t t' X. map conditionFields (sc t' (sc t X new ev) new ev) =
                      map conditionFields (sc t X new ev)) \<and>
          (\<forall>stored. appSet cl = Some stored \<longrightarrow>
                      isRollingSyncStrategy stored = isRollingSyncStrategy aset) \<longrightarrow>
            fst (setApplicationSetStatusCondition sc now'
                   (snd (snd (setApplicationSetStatusCondition sc now cl aset cond pg)))
                   (fst (snd (setApplicationSetStatusCondition sc now cl aset cond pg))) cond pg) = None \<and>
            snd (snd (setApplicationSetStatusCondition sc now'
                   (snd (snd (setApplicationSetStatusCondition sc now cl aset cond pg)))
                   (fst (snd (setApplicationSetStatusCondition sc now cl aset cond pg))) cond pg))
              = snd (snd (setApplicationSetStatusCondition sc now cl aset cond pg)))"
proof (intro conjI impI)
  assume "map conditionFields (sc now (Conditions aset) new ev) = map conditionFields (Conditions aset)"
  from no_condition_write [where sc = sc and now = now and cl = cl, OF assms this]
  show "setApplicationSetStatusCondition sc now cl aset cond pg =
          (None, (aset\<lparr>Conditions := sc now (Conditions aset) new ev\<rparr>, cl))" .
next
  assume h: "(\<forall>t t' X. map conditionFields (sc t' (sc t X new ev) new ev) =
                      map conditionFields (sc t X new ev)) \<and>
          (\<forall>stored. appSet cl = Some stored \<longrightarrow>
                      isRollingSyncStrategy stored = isRollingSyncStrategy aset)"
  let ?first = "setApplicationSetStatusCondition sc now cl aset cond pg"
  have first: "?first = (fst ?first, (fst (snd ?first), snd (snd ?first)))" by simp
  from h have idem: "\<And>t t' X. map conditionFields (sc t' (sc t X new ev) new ev) =
                      map conditionFields (sc t X new ev)"
    and same: "\<And>stored. appSet cl = Some stored \<Longrightarrow>
                      isRollingSyncStrategy stored = isRollingSyncStrategy aset" by blast+
  from second_call_writes_nothing [where sc = sc and now = now and now' = now' and cl = cl,
      OF assms idem same first]
  obtain a2 where "setApplicationSetStatusCondition sc now' (snd (snd ?first)) (fst (snd ?first)) cond pg
      = (None, (a2, snd (snd ?first)))" by blast
  then show "fst (setApplicationSetStatusCondition sc now' (snd (snd ?first)) (fst (snd ?first)) cond pg) = None"
    and "snd (snd (setApplicationSetStatusCondition sc now' (snd (snd ?first)) (fst (snd ?first)) cond pg))
      = snd (snd ?first)" by simp_all
qed

text \<open>
  Witness for C9, with the modelled \<^const>\<open>SetConditions\<close>: on an ApplicationSet with no
  conditions the first run makes two client calls, the fetch and the status update, and the
  second run of the same condition leaves the store as it is.
\<close>

theorem C9_condition_write_witness:
  "callLog (snd (snd (setApplicationSetStatusCondition SetConditions 5 (plainCluster [])
                      (plainAppSet []) upToDate True))) = [GetAppSetCall, StatusUpdateCall]
   \<and> snd (snd (setApplicationSetStatusCondition SetConditions 6
        (snd (snd (setApplicationSetStatusCondition SetConditions 5 (plainCluster [])
                     (plainAppSet []) upToDate True)))
        (fst (snd (setApplicationSetStatusCondition SetConditions 5 (plainCluster [])
                     (plainAppSet []) upToDate True))) upToDate True))
     = snd (snd (setApplicationSetStatusCondition SetConditions 5 (plainCluster [])
                   (plainAppSet []) upToDate True))"
proof -
  let ?first = "setApplicationSetStatusCondition SetConditions 5 (plainCluster []) (plainAppSet [])
                  upToDate True"
  have ev: "evaluateCondition (plainAppSet []) upToDate True =
      (fst (evaluateCondition (plainAppSet []) upToDate True),
       snd (evaluateCondition (plainAppSet []) upToDate True))" by simp
  have same: "\<forall>stored. appSet (plainCluster []) = Some stored \<longrightarrow>
      isRollingSyncStrategy stored = isRollingSyncStrategy (plainAppSet [])"
    by (simp add: plainCluster_def newCluster_def)
  have idem: "\<forall>t t' X. map conditionFields
        (SetConditions t' (SetConditions t X (fst (evaluateCondition (plainAppSet []) upToDate True))
           (snd (evaluateCondition (plainAppSet []) upToDate True)))
           (fst (evaluateCondition (plainAppSet []) upToDate True))
           (snd (evaluateCondition (plainAppSet []) upToDate True))) =
      map conditionFields
        (SetConditions t X (fst (evaluateCondition (plainAppSet []) upToDate True))
           (snd (evaluateCondition (plainAppSet []) upToDate True)))"
    by (simp add: SetConditions_idempotent)
  have second: "snd (snd (setApplicationSetStatusCondition SetConditions 6 (snd (snd ?first))
      (fst (snd ?first)) upToDate True)) = snd (snd ?first)"
    using C9_condition_write_skipped_when_unchanged [where sc = SetConditions and now = 5
        and now' = 6 and cl = "plainCluster []", OF ev] idem same by blast
  have two: "callLog (snd (snd ?first)) = [GetAppSetCall, StatusUpdateCall]"
    by (simp add: setApplicationSetStatusCondition_def evaluateCondition_def Let_def
        SetConditions_def evaluated_def stamped_def conditionsChanged_def
        getParametersGeneratedCondition_def condition_consts upToDate_def plainAppSet_def
        plainCluster_def newCluster_def newAppSet_def noFaults_def isRollingSyncStrategy_def
        DefaultRetry_def eval_nat_numeral conditionsAttempt_def clientGetAppSet_def
        clientStatusUpdate_def injected_def answered_def sameObject_def)
  from two second show ?thesis by (rule conjI)
qed




subsection \<open>The update predicate\<close>

text \<open>
  C8 (as amended). For two ApplicationSets, the update predicate is true when the spec, the
  labels, the finalizers or the deletion timestamp changed, and, with progressive sync
  enabled, when the status list changed. Otherwise it is false when the annotations did not
  change, false whenever the refresh annotation was removed (present before, absent after),
  whether or not other annotations changed with it, and true for every other change of the
  annotations.
\<close>

theorem C8_requeue_for_application_set:
  fixes old new :: "'s ApplicationSet"
  assumes removed: "removed \<longleftrightarrow> Annotations old AnnotationApplicationSetRefresh \<noteq> None \<and>
                        Annotations new AnnotationApplicationSetRefresh = None"
    and status: "statusChange \<longleftrightarrow> enableProgressiveSyncs \<and>
                        \<not> cmpEqualStatuses (ApplicationStatus old) (ApplicationStatus new)"
  shows "(ownedFieldsChanged old new \<longrightarrow>
            shouldRequeueForApplicationSet (Some old) (Some new) enableProgressiveSyncs)
       \<and> (statusChange \<longrightarrow> shouldRequeueForApplicationSet (Some old) (Some new) enableProgressiveSyncs)
       \<and> (\<not> ownedFieldsChanged old new \<and> \<not> statusChange \<and> Annotations new = Annotations old \<longrightarrow>
            \<not> shouldRequeueForApplicationSet (Some old) (Some new) enableProgressiveSyncs)
       \<and> (\<not> ownedFieldsChanged old new \<and> \<not> statusChange \<and> removed \<longrightarrow>
            \<not> shouldRequeueForApplicationSet (Some old) (Some new) enableProgressiveSyncs)
       \<and> (\<not> ownedFieldsChanged old new \<and> \<not> statusChange \<and>
          Annotations old AnnotationApplicationSetRefresh \<noteq> None \<and>
          Annotations new = (Annotations old)(AnnotationApplicationSetRefresh := None) \<longrightarrow>
            \<not> shouldRequeueForApplicationSet (Some old) (Some new) enableProgressiveSyncs)
       \<and> (Annotations new \<noteq> Annotations old \<and> \<not> removed \<longrightarrow>
            shouldRequeueForApplicationSet (Some old) (Some new) enableProgressiveSyncs)
       \<and> (shouldRequeueForApplicationSet (Some old) (Some new) enableProgressiveSyncs \<longleftrightarrow>
            statusChange \<or> ownedFieldsChanged old new \<or>
            (Annotations new \<noteq> Annotations old \<and> \<not> removed))"
proof -
  have iff: "shouldRequeueForApplicationSet (Some old) (Some new) enableProgressiveSyncs \<longleftrightarrow>
            statusChange \<or> ownedFieldsChanged old new \<or>
            (Annotations new \<noteq> Annotations old \<and> \<not> removed)"
    unfolding removed status
    by (auto simp: shouldRequeueForApplicationSet_def ownedFieldsChanged_def Let_def)
  have sole: "removed" if "Annotations old AnnotationApplicationSetRefresh \<noteq> None"
      "Annotations new = (Annotations old)(AnnotationApplicationSetRefresh := None)"
    using that removed by simp
  show ?thesis
    using iff sole by blast
qed

text \<open>
  Witness for C8: removing only the refresh annotation does not requeue, even with
  progressive sync enabled.
\<close>

theorem C8_requeue_witness:
  "Annotations (annotatedAppSet refreshOnly) AnnotationApplicationSetRefresh \<noteq> None
   \<and> Annotations (annotatedAppSet noAnnotations) =
       (Annotations (annotatedAppSet refreshOnly))(AnnotationApplicationSetRefresh := None)
   \<and> \<not> shouldRequeueForApplicationSet (Some (annotatedAppSet refreshOnly))
         (Some (annotatedAppSet noAnnotations)) True"
proof -
  let ?old = "annotatedAppSet refreshOnly" and ?new = "annotatedAppSet noAnnotations"
  have has: "Annotations ?old AnnotationApplicationSetRefresh \<noteq> None"
    by (simp add: annotatedAppSet_def refreshOnly_def AnnotationApplicationSetRefresh_def)
  have sole: "Annotations ?new = (Annotations ?old)(AnnotationApplicationSetRefresh := None)"
    by (simp add: annotatedAppSet_def refreshOnly_def noAnnotations_def
        AnnotationApplicationSetRefresh_def)
  have same: "\<not> ownedFieldsChanged ?old ?new"
    by (simp add: ownedFieldsChanged_def annotatedAppSet_def)
  have st: "\<not> (True \<and> \<not> cmpEqualStatuses (ApplicationStatus ?old) (ApplicationStatus ?new))"
    by (simp add: cmpEqualStatuses_def annotatedAppSet_def)
  have "\<not> shouldRequeueForApplicationSet (Some ?old) (Some ?new) True"
    using C8_requeue_for_application_set [where old = ?old and new = ?new
        and enableProgressiveSyncs = True, OF refl refl] has sole same st
    by blast
  with has sole show ?thesis by blast
qed

text \<open>
  Counterexample to C8 as stated: the refresh annotation is removed and the annotation
  \<open>team\<close> changes in the same update, so the change is not solely the removal; nothing else
  differs, and the predicate is false.
\<close>

theorem C8_refresh_removed_with_other_change_counterexample:
  "Annotations (annotatedAppSet otherTeam) \<noteq>
      (Annotations (annotatedAppSet refreshAndTeam))(AnnotationApplicationSetRefresh := None)
   \<and> Annotations (annotatedAppSet otherTeam) \<noteq> Annotations (annotatedAppSet refreshAndTeam)
   \<and> \<not> ownedFieldsChanged (annotatedAppSet refreshAndTeam) (annotatedAppSet otherTeam)
   \<and> \<not> shouldRequeueForApplicationSet (Some (annotatedAppSet refreshAndTeam))
         (Some (annotatedAppSet otherTeam)) False"
proof -
  have 1: "otherTeam ''team'' \<noteq> refreshAndTeam ''team''"
    by (simp add: otherTeam_def refreshAndTeam_def)
  then have ne: "otherTeam \<noteq> refreshAndTeam" by metis
  have 2: "otherTeam ''team'' \<noteq> (refreshAndTeam(AnnotationApplicationSetRefresh := None)) ''team''"
    by (simp add: otherTeam_def refreshAndTeam_def AnnotationApplicationSetRefresh_def)
  then have ne2: "otherTeam \<noteq> refreshAndTeam(AnnotationApplicationSetRefresh := None)" by metis
  have 3: "refreshAndTeam AnnotationApplicationSetRefresh \<noteq> None"
    "otherTeam AnnotationApplicationSetRefresh = None"
    by (simp_all add: otherTeam_def refreshAndTeam_def AnnotationApplicationSetRefresh_def)
  show ?thesis
    using ne ne2 3
    by (simp add: annotatedAppSet_def shouldRequeueForApplicationSet_def ownedFieldsChanged_def
        Let_def cmpEqualStatuses_def newAppSet_def)
qed

subsection \<open>Promotion from Waiting to Pending\<close>

lemma inFlightCount_Nil [simp]: "inFlightCount m i [] = 0"
  by (simp add: inFlightCount_def entriesOfStep_def)

lemma inFlightCount_Cons:
  "inFlightCount m i (s # xs) =
     (if stepIndex m (Application s) = int i \<and> inFlight s then 1 else 0) + inFlightCount m i xs"
  by (simp add: inFlightCount_def entriesOfStep_def)

lemma inFlightCount_append:
  "inFlightCount m i (xs @ ys) = inFlightCount m i xs + inFlightCount m i ys"
  by (simp add: inFlightCount_def entriesOfStep_def)

lemma entriesOfStep_Cons:
  "length (entriesOfStep m i (s # xs)) =
     (if stepIndex m (Application s) = int i then 1 else 0) + length (entriesOfStep m i xs)"
  by (simp add: entriesOfStep_def)

lemma indicesInRange_Cons:
  "indicesInRange m n (s # xs) \<longleftrightarrow>
     (\<exists>j<n. stepIndex m (Application s) = int j) \<and> indicesInRange m n xs"
proof -
  have "(0 \<le> stepIndex m (Application s) \<and> stepIndex m (Application s) < int n) \<longleftrightarrow>
        (\<exists>j<n. stepIndex m (Application s) = int j)"
  proof
    assume a: "0 \<le> stepIndex m (Application s) \<and> stepIndex m (Application s) < int n"
    then have "nat (stepIndex m (Application s)) < n \<and>
               stepIndex m (Application s) = int (nat (stepIndex m (Application s)))"
      by (simp add: nat_less_iff)
    then show "\<exists>j<n. stepIndex m (Application s) = int j"
      by blast
  next
    assume "\<exists>j<n. stepIndex m (Application s) = int j"
    then show "0 \<le> stepIndex m (Application s) \<and> stepIndex m (Application s) < int n"
      by auto
  qed
  then show ?thesis
    by (simp add: indicesInRange_def)
qed

lemma indicesInRange_no_panic:
  "indicesInRange m n statuses \<Longrightarrow>
   \<not> list_ex (\<lambda>appStatus. stepIndex m (Application appStatus) < 0 \<or>
                 int n \<le> stepIndex m (Application appStatus)) statuses"
  by (induction statuses) (auto simp: indicesInRange_Cons)

lemma countLoop_counts:
  "indicesInRange m n statuses \<Longrightarrow> length T = n \<Longrightarrow> length U = n \<Longrightarrow>
   countLoop m statuses (T, U) = (T', U') \<Longrightarrow>
   length T' = n \<and> length U' = n \<and>
   (\<forall>i<n. T' ! i = T ! i + length (entriesOfStep m i statuses) \<and>
           U' ! i = U ! i + inFlightCount m i statuses)"
proof (induction statuses arbitrary: T U)
  case Nil
  then show ?case by (simp add: entriesOfStep_def)
next
  case (Cons s statuses)
  from Cons.prems(1) obtain j where j: "j < n" "stepIndex m (Application s) = int j"
    and rest: "indicesInRange m n statuses" by (auto simp: indicesInRange_Cons)
  let ?T = "T[j := T ! j + 1]"
  let ?U = "if inFlight s then U[j := U ! j + 1] else U"
  have step: "countLoop m statuses (?T, ?U) = (T', U')"
    using Cons.prems(4) j(2) by (simp add: Let_def)
  have lens: "length ?T = n" "length ?U = n" using Cons.prems(2,3) by simp_all
  note ih = Cons.IH [OF rest lens step]
  have "T' ! i = T ! i + length (entriesOfStep m i (s # statuses)) \<and>
        U' ! i = U ! i + inFlightCount m i (s # statuses)" if "i < n" for i
  proof -
    from ih that have a: "T' ! i = ?T ! i + length (entriesOfStep m i statuses)"
      and b: "U' ! i = ?U ! i + inFlightCount m i statuses" by blast+
    have c: "?T ! i = T ! i + (if stepIndex m (Application s) = int i then 1 else 0)"
      using j that Cons.prems(2) by (auto simp: nth_list_update)
    have d: "?U ! i = U ! i + (if stepIndex m (Application s) = int i \<and> inFlight s then 1 else 0)"
      using j that Cons.prems(3) by (auto simp: nth_list_update)
    show ?thesis
      unfolding a b c d entriesOfStep_Cons inFlightCount_Cons by simp
  qed
  with ih show ?case by blast
qed

lemma progressLoop_Cons:
  "progressLoop fs now steps sync m T (s # rest) U =
     (if Status s = ''Waiting'' \<and> syncEnabled sync (Application s) \<and>
         (case MaxUpdate (steps ! nat (stepIndex m (Application s))) of
            None \<Rightarrow> True
          | Some maxUpdate \<Rightarrow>
              int (U ! nat (stepIndex m (Application s)))
              < maxUpdateValue fs maxUpdate (int (T ! nat (stepIndex m (Application s)))))
      then movedToPending now m s
           # progressLoop fs now steps sync m T rest
               (U[nat (stepIndex m (Application s)) := U ! nat (stepIndex m (Application s)) + 1])
      else s # progressLoop fs now steps sync m T rest U)"
  by (simp only: progressLoop.simps Let_def movedToPending_def not_le)

lemma progressLoop_length [simp]: "length (progressLoop fs now steps sync m T rest U) = length rest"
  by (induction rest arbitrary: U) (simp_all add: progressLoop_Cons del: progressLoop.simps(2))


lemma movedToPending_simps [simp]:
  "Application (movedToPending now m s) = Application s"
  "Status (movedToPending now m s) = ''Pending''"
  "inFlight (movedToPending now m s)"
  by (simp_all add: movedToPending_def inFlight_def)

lemma progressLoop_bound:
  "indicesInRange m n rest \<Longrightarrow> length U = n \<Longrightarrow> i < n \<Longrightarrow>
   MaxUpdate (steps ! i) = Some mu \<Longrightarrow>
   int (U ! i) - int (inFlightCount m i rest) +
     int (inFlightCount m i (progressLoop fs now steps sync m T rest U))
   \<le> max (int (U ! i)) (maxUpdateValue fs mu (int (T ! i)))"
proof (induction rest arbitrary: U)
  case Nil
  then show ?case by simp
next
  case (Cons s rest)
  from Cons.prems(1) obtain j where j: "j < n" "stepIndex m (Application s) = int j"
    and rest: "indicesInRange m n rest" by (auto simp: indicesInRange_Cons)
  have idx: "nat (stepIndex m (Application s)) = j"
    using j(2) by simp
  let ?c = "maxUpdateValue fs mu (int (T ! i))"
  let ?allowed = "case MaxUpdate (steps ! j) of None \<Rightarrow> True
     | Some maxUpdate \<Rightarrow> int (U ! j) < maxUpdateValue fs maxUpdate (int (T ! j))"
  let ?promote = "Status s = ''Waiting'' \<and> syncEnabled sync (Application s) \<and> ?allowed"
  let ?U = "U[j := U ! j + 1]"
  let ?s = "movedToPending now m s"
  have unfold: "progressLoop fs now steps sync m T (s # rest) U =
      (if ?promote then ?s # progressLoop fs now steps sync m T rest ?U
       else s # progressLoop fs now steps sync m T rest U)"
    unfolding progressLoop_Cons idx by (rule refl)
  show ?case
  proof (cases ?promote)
    case False
    have out: "progressLoop fs now steps sync m T (s # rest) U =
        s # progressLoop fs now steps sync m T rest U"
      unfolding unfold using False by (rule if_not_P)
    from Cons.IH [OF rest Cons.prems(2,3,4)]
    show ?thesis unfolding out inFlightCount_Cons by simp
  next
    case True
    have out: "progressLoop fs now steps sync m T (s # rest) U =
        ?s # progressLoop fs now steps sync m T rest ?U"
      unfolding unfold using True by (rule if_P)
    have notIn: "\<not> inFlight s" using True by (simp add: inFlight_def)
    have isIn: "inFlight ?s" by simp
    have app: "Application ?s = Application s" by simp
    have len: "length ?U = n" using Cons.prems(2) by simp
    note ih = Cons.IH [OF rest len Cons.prems(3,4)]
    show ?thesis
    proof (cases "j = i")
      case False
      then have "?U ! i = U ! i" by simp
      with ih show ?thesis
        unfolding out inFlightCount_Cons app using False j(2) notIn by simp
    next
      case ji: True
      have "int (U ! j) < maxUpdateValue fs mu (int (T ! j))"
        using True Cons.prems(4) ji by simp
      then have lt: "int (U ! i) < ?c" using ji by simp
      have up: "?U ! i = U ! i + 1"
        using ji Cons.prems(2,3) by simp
      from ih lt show ?thesis
        unfolding out inFlightCount_Cons app up using ji j(2) notIn isIn by simp
    qed
  qed
qed

lemma progressLoop_nth:
  "indicesInRange m n rest \<Longrightarrow> length U = n \<Longrightarrow>
   (\<forall>i<n. U ! i = inFlightCount m i (pre @ rest)) \<Longrightarrow> j < length rest \<Longrightarrow>
   progressLoop fs now steps sync m T rest U ! j =
     (if Status (rest ! j) = ''Waiting'' \<and> syncEnabled sync (Application (rest ! j)) \<and>
         (case MaxUpdate (steps ! nat (stepIndex m (Application (rest ! j)))) of
            None \<Rightarrow> True
          | Some maxUpdate \<Rightarrow>
              int (inFlightCount m (nat (stepIndex m (Application (rest ! j))))
                     (pre @ take j (progressLoop fs now steps sync m T rest U) @ drop j rest))
              < maxUpdateValue fs maxUpdate
                  (int (T ! nat (stepIndex m (Application (rest ! j))))))
      then movedToPending now m (rest ! j) else rest ! j)"
proof (induction rest arbitrary: U pre j)
  case Nil
  then show ?case by simp
next
  case (Cons s rest)
  from Cons.prems(1) obtain k where k: "k < n" "stepIndex m (Application s) = int k"
    and rest: "indicesInRange m n rest" by (auto simp: indicesInRange_Cons)
  have idx: "nat (stepIndex m (Application s)) = k"
    using k(2) by simp
  let ?allowed = "case MaxUpdate (steps ! k) of None \<Rightarrow> True
     | Some maxUpdate \<Rightarrow> int (U ! k) < maxUpdateValue fs maxUpdate (int (T ! k))"
  let ?promote = "Status s = ''Waiting'' \<and> syncEnabled sync (Application s) \<and> ?allowed"
  let ?U = "U[k := U ! k + 1]"
  let ?s = "movedToPending now m s"
  have unfold: "progressLoop fs now steps sync m T (s # rest) U =
      (if ?promote then ?s # progressLoop fs now steps sync m T rest ?U
       else s # progressLoop fs now steps sync m T rest U)"
    unfolding progressLoop_Cons idx by (rule refl)
  have Uk: "U ! k = inFlightCount m k (pre @ s # rest)"
    using Cons.prems(3) k(1) by simp
  show ?case
  proof (cases ?promote)
    case False
    have out: "progressLoop fs now steps sync m T (s # rest) U =
        s # progressLoop fs now steps sync m T rest U"
      unfolding unfold using False by (rule if_not_P)
    show ?thesis
    proof (cases j)
      case 0
      show ?thesis
        unfolding out 0 using False by (auto simp: idx Uk cong: option.case_cong)
    next
      case (Suc j')
      have j': "j' < length rest"
        using Cons.prems(4) Suc by simp
      have cnt: "\<forall>i<n. U ! i = inFlightCount m i ((pre @ [s]) @ rest)"
        using Cons.prems(3) by simp
      from Cons.IH [OF rest Cons.prems(2) cnt j']
      show ?thesis
        unfolding out Suc by (simp cong: option.case_cong)
    qed
  next
    case True
    have out: "progressLoop fs now steps sync m T (s # rest) U =
        ?s # progressLoop fs now steps sync m T rest ?U"
      unfolding unfold using True by (rule if_P)
    have notIn: "\<not> inFlight s" using True by (simp add: inFlight_def)
    show ?thesis
    proof (cases j)
      case 0
      show ?thesis
        unfolding out 0 using True by (auto simp: idx Uk cong: option.case_cong)
    next
      case (Suc j')
      have j': "j' < length rest"
        using Cons.prems(4) Suc by simp
      have len: "length ?U = n" using Cons.prems(2) by simp
      have cnt: "\<forall>i<n. ?U ! i = inFlightCount m i ((pre @ [?s]) @ rest)"
      proof (intro allI impI)
        fix i assume i: "i < n"
        have "U ! i = inFlightCount m i (pre @ s # rest)"
          using Cons.prems(3) i by simp
        then show "?U ! i = inFlightCount m i ((pre @ [?s]) @ rest)"
          using i k notIn Cons.prems(2)
          by (auto simp: inFlightCount_append inFlightCount_Cons nth_list_update)
      qed
      from Cons.IH [OF rest len cnt j']
      show ?thesis
        unfolding out Suc by (simp cong: option.case_cong)
    qed
  qed
qed


lemma stepsLoop_range:
  "(\<forall>name v. snd acc name = Some v \<longrightarrow> 0 \<le> v \<and> v < int (i + length steps)) \<Longrightarrow>
   snd (stepsLoop app steps i acc) name = Some v \<Longrightarrow> 0 \<le> v \<and> v < int (i + length steps)"
proof (induction steps arbitrary: i acc)
  case Nil
  then show ?case by simp
next
  case (Cons step steps)
  obtain dl m where acc: "acc = (dl, m)"
    by (cases acc)
  have old: "\<forall>name v. m name = Some v \<longrightarrow> 0 \<le> v \<and> v < int (Suc i + length steps)"
    using Cons.prems(1) acc by simp
  show ?case
  proof (cases "stepSelected (Labels app) (MatchExpressions step)")
    case False
    have "snd (stepsLoop app steps (Suc i) (dl, m)) name = Some v"
      using Cons.prems(2) acc False by simp
    from Cons.IH [of "(dl, m)" "Suc i", OF _ this] old
    show ?thesis by simp
  next
    case True
    let ?m = "case m (Name app) of Some val \<Rightarrow> m | None \<Rightarrow> m(Name app \<mapsto> int i)"
    have new: "\<forall>name v. snd (dl[i := dl ! i @ [Name app]], ?m) name = Some v \<longrightarrow>
                 0 \<le> v \<and> v < int (Suc i + length steps)"
      using old by (auto split: option.splits if_splits)
    have "snd (stepsLoop app steps (Suc i) (dl[i := dl ! i @ [Name app]], ?m)) name = Some v"
      using Cons.prems(2) acc True by simp
    from Cons.IH [OF new this]
    show ?thesis by simp
  qed
qed

lemma foldl_stepsLoop_range:
  "(\<forall>name v. snd acc name = Some v \<longrightarrow> 0 \<le> v \<and> v < int (length steps)) \<Longrightarrow>
   snd (foldl (\<lambda>acc app. stepsLoop app steps 0 acc) acc applications) name = Some v \<Longrightarrow>
   0 \<le> v \<and> v < int (length steps)"
proof (induction applications arbitrary: acc)
  case Nil
  then show ?case by simp
next
  case (Cons app applications)
  have "\<forall>name v. snd (stepsLoop app steps 0 acc) name = Some v \<longrightarrow> 0 \<le> v \<and> v < int (length steps)"
    using stepsLoop_range [of acc 0 steps app] Cons.prems(1) by simp
  from Cons.IH [OF this] Cons.prems(2)
  show ?case by simp
qed

lemma buildAppDependencyList_range:
  "snd (buildAppDependencyList applicationSet applications) name = Some v \<Longrightarrow>
   0 \<le> v \<and> v < int (length (rollingSyncSteps applicationSet))"
proof -
  assume a: "snd (buildAppDependencyList applicationSet applications) name = Some v"
  show ?thesis
  proof (cases "progressiveSyncsRollingSyncStrategyEnabled applicationSet")
    case True
    have "snd (foldl (\<lambda>acc app. stepsLoop app (rollingSyncSteps applicationSet) 0 acc)
                 (replicate (length (rollingSyncSteps applicationSet)) [], Map.empty) applications) name
          = Some v"
      using a True by (simp add: buildAppDependencyList_def Let_def split: if_splits)
    from foldl_stepsLoop_range [OF _ this]
    show ?thesis by simp
  next
    case False
    have "snd (foldl (\<lambda>acc app. stepsLoop app [] 0 acc) acc applications) = snd acc" for acc
      by (induction applications arbitrary: acc) simp_all
    then show ?thesis
      using a False by (simp add: buildAppDependencyList_def Let_def split: if_splits)
  qed
qed

lemma buildAppDependencyList_indicesInRange:
  assumes "progressiveSyncsRollingSyncStrategyEnabled applicationSet"
  shows "indicesInRange (snd (buildAppDependencyList applicationSet applications))
           (length (rollingSyncSteps applicationSet)) statuses"
proof -
  have "0 \<le> stepIndex (snd (buildAppDependencyList applicationSet applications)) name \<and>
        stepIndex (snd (buildAppDependencyList applicationSet applications)) name
        < int (length (rollingSyncSteps applicationSet))" for name
    using assms buildAppDependencyList_range [of applicationSet applications name]
    by (auto simp: stepIndex_def progressiveSyncsRollingSyncStrategyEnabled_def split: option.splits)
  then show ?thesis
    by (simp add: indicesInRange_def list_all_iff)
qed

lemmas maxUpdate_defs =
  maxUpdateValue_def GetScaledValueFromIntOrPercent_def Atoi_def isDigit_def digitsValue_def

lemmas promotion_defs =
  promoteToPending_def strategy_defs newAppSet_def rollingSync_def Let_def
  stepIndex_def syncEnabled_def inFlight_def inFirstStep_def twoInFirstStep_def allSync_def
  statusEntry_def cappedStep_def stepWith_def noRounding_def







subsection \<open>Deletion of the ApplicationSet\<close>

lemmas object_defs = deletedAppSet_def newAppSet_def reverseOrder_def inStep_def prodStep_def
  devApp_def prodApp_def strayApp_def ownedApp_def newApplication_def controllerRef_def
  envLabel_def noLabels_def newCluster_def noFaults_def ResourcesFinalizerName_def
  ReverseDeletionOrder_def

lemma quiet_injected: "quiet cl \<Longrightarrow> injected cl = None"
  by (simp add: quiet_def injected_def)

lemma quiet_answered [simp]: "quiet (answered c cl) = quiet cl"
  by (simp add: quiet_def answered_def)

lemma apps_answered [simp]: "apps (answered c cl) = apps cl"
  by (simp add: answered_def)

lemma findApp_answered [simp]: "findApp (answered c cl) k = findApp cl k"
  by (simp add: findApp_def)

lemma live_answered [simp]: "live (answered c cl) a = live cl a"
  by (simp add: live_def)

lemma deleteCalls_answered:
  "deleteCalls (answered c cl) =
     deleteCalls cl @ (case c of DeleteCall n \<Rightarrow> [n] | _ \<Rightarrow> [])"
  by (simp add: deleteCalls_def answered_def)

lemma deleteCalls_apps_update [simp]: "deleteCalls (cl\<lparr>apps := as\<rparr>) = deleteCalls cl"
  by (simp add: deleteCalls_def)

lemma deleteCalls_appSet_update [simp]: "deleteCalls (cl\<lparr>appSet := p\<rparr>) = deleteCalls cl"
  by (simp add: deleteCalls_def)

lemma clientGet_quiet:
  "quiet cl \<Longrightarrow>
   clientGet cl k =
     ((case findApp cl k of None \<Rightarrow> Inl ErrNotFound | Some a \<Rightarrow> Inr a),
      answered (GetCall (Name k)) cl)"
  by (simp add: clientGet_def quiet_injected split: option.splits)

lemma findApp_found:
  "findApp cl a = Some r \<Longrightarrow> sameObject r a \<and> findApp cl r = Some r"
proof -
  assume f: "findApp cl a = Some r"
  then have s: "sameObject r a"
    by (auto simp: findApp_def find_Some_iff)
  have "(\<lambda>b::Application. sameObject b r) = (\<lambda>b. sameObject b a)"
    using s by (auto simp: sameObject_def fun_eq_iff)
  then show ?thesis
    using f s by (simp add: findApp_def)
qed

lemma loop_none_live:
  "quiet cl \<Longrightarrow> \<forall>e\<in>set walk. \<exists>a. appMap (AppName e) = Some a \<and> \<not> live cl a \<Longrightarrow>
   \<exists>cl'. reverseDeletionLoop now appMap cl walk = ((0, None), cl') \<and>
         apps cl' = apps cl \<and> deleteCalls cl' = deleteCalls cl"
proof (induction walk arbitrary: cl)
  case Nil
  then show ?case by simp
next
  case (Cons e walk)
  from Cons.prems(2) obtain a where a: "appMap (AppName e) = Some a" "\<not> live cl a"
    by auto
  let ?cl1 = "answered (GetCall (Name a)) cl"
  have q1: "quiet ?cl1"
    using Cons.prems(1) by simp
  have rest: "\<forall>e\<in>set walk. \<exists>a. appMap (AppName e) = Some a \<and> \<not> live ?cl1 a"
    using Cons.prems(2) by simp
  from Cons.IH [OF q1 rest] obtain cl' where
    r: "reverseDeletionLoop now appMap ?cl1 walk = ((0, None), cl')"
    and e: "apps cl' = apps ?cl1" "deleteCalls cl' = deleteCalls ?cl1"
    by blast
  have "reverseDeletionLoop now appMap cl (e # walk) = ((0, None), cl')"
    using a r by (simp add: clientGet_quiet [OF Cons.prems(1)] live_def)
  then show ?case
    using e by (simp add: deleteCalls_answered)
qed

lemma loop_first_live:
  "quiet cl \<Longrightarrow> \<forall>e\<in>set pre. \<exists>a. appMap (AppName e) = Some a \<and> \<not> live cl a \<Longrightarrow>
   appMap (AppName e) = Some a \<Longrightarrow> findApp cl a = Some r \<Longrightarrow>
   \<exists>cl1. reverseDeletionLoop now appMap cl (pre @ e # post) = deleteRetrieved now cl1 r \<and>
         apps cl1 = apps cl \<and> deleteCalls cl1 = deleteCalls cl \<and> quiet cl1"
proof (induction pre arbitrary: cl)
  case Nil
  have "reverseDeletionLoop now appMap cl (e # post)
        = deleteRetrieved now (answered (GetCall (Name a)) cl) r"
    using Nil.prems by (simp add: clientGet_quiet)
  then show ?case
    using Nil.prems(1) by (auto simp: deleteCalls_answered intro!: exI [where x = "answered (GetCall (Name a)) cl"])
next
  case (Cons x pre)
  from Cons.prems(2) obtain b where b: "appMap (AppName x) = Some b" "\<not> live cl b"
    by auto
  let ?cl1 = "answered (GetCall (Name b)) cl"
  have q1: "quiet ?cl1"
    using Cons.prems(1) by simp
  have rest: "\<forall>e\<in>set pre. \<exists>a. appMap (AppName e) = Some a \<and> \<not> live ?cl1 a"
    using Cons.prems(2) by simp
  have f1: "findApp ?cl1 a = Some r"
    using Cons.prems(4) by simp
  from Cons.IH [OF q1 rest Cons.prems(3) f1] obtain cl1 where
    r: "reverseDeletionLoop now appMap ?cl1 (pre @ e # post) = deleteRetrieved now cl1 r"
    and e: "apps cl1 = apps ?cl1" "deleteCalls cl1 = deleteCalls ?cl1" "quiet cl1"
    by blast
  have "reverseDeletionLoop now appMap cl ((x # pre) @ e # post) = deleteRetrieved now cl1 r"
    using b r by (simp add: clientGet_quiet [OF Cons.prems(1)] live_def)
  then show ?case
    using e by (auto simp: deleteCalls_answered)
qed


lemma sameObject_found:
  "findApp cl a = Some r \<Longrightarrow> (\<lambda>b::Application. sameObject b r) = (\<lambda>b. sameObject b a)"
  using findApp_found [of cl a r] by (auto simp: sameObject_def fun_eq_iff)

lemma deleteRetrieved_quiet:
  assumes q1: "quiet cl1" and q: "quiet cl" and f: "findApp cl a = Some r"
    and same: "apps cl1 = apps cl"
  shows "overdue now cl a \<Longrightarrow> deleteRetrieved now cl1 r = ((0, Some notDeletedInTime), cl1)"
    and "\<not> overdue now cl a \<Longrightarrow>
         \<exists>cl2. deleteRetrieved now cl1 r = ((10, None), cl2) \<and>
               deleteCalls cl2 = deleteCalls cl1 @ [Name a] \<and>
               apps cl2 = apps (snd (clientDelete now cl a))"
proof -
  show "overdue now cl a \<Longrightarrow> deleteRetrieved now cl1 r = ((0, Some notDeletedInTime), cl1)"
    using f by (simp add: overdue_def deleteRetrieved_def split: option.splits)
next
  assume fresh: "\<not> overdue now cl a"
  have fr: "findApp cl1 r = Some r"
    using findApp_found [OF f] same by (simp add: findApp_def)
  have nm: "Name r = Name a"
    using findApp_found [OF f] by (simp add: sameObject_def)
  have so: "(\<lambda>b::Application. sameObject b r) = (\<lambda>b. sameObject b a)"
    by (rule sameObject_found [OF f])
  have nd: "\<not> (case DeletionTimestamp r of None \<Rightarrow> False | Some t \<Rightarrow> now - t > 120)"
    using fresh f by (simp add: overdue_def)
  have d1: "clientDelete now cl1 r =
      (None, (answered (DeleteCall (Name r)) cl1)\<lparr>apps :=
          (if Finalizers r = [] then filter (\<lambda>b. \<not> sameObject b r) (apps cl1)
           else replaceApp (r\<lparr>DeletionTimestamp :=
                  (case DeletionTimestamp r of None \<Rightarrow> Some now | Some t \<Rightarrow> Some t)\<rparr>) (apps cl1))\<rparr>)"
    by (simp add: clientDelete_def quiet_injected [OF q1] fr)
  have d0: "apps (snd (clientDelete now cl a)) =
          (if Finalizers r = [] then filter (\<lambda>b. \<not> sameObject b a) (apps cl)
           else replaceApp (r\<lparr>DeletionTimestamp :=
                  (case DeletionTimestamp r of None \<Rightarrow> Some now | Some t \<Rightarrow> Some t)\<rparr>) (apps cl))"
    by (simp add: clientDelete_def quiet_injected [OF q] f)
  have so': "filter (\<lambda>b. \<not> sameObject b r) (apps cl) = filter (\<lambda>b. \<not> sameObject b a) (apps cl)"
    using so by (simp add: fun_eq_iff)
  have "deleteRetrieved now cl1 r = ((10, None), snd (clientDelete now cl1 r))"
    using nd by (simp add: deleteRetrieved_def d1)
  moreover have "deleteCalls (snd (clientDelete now cl1 r)) = deleteCalls cl1 @ [Name a]"
    by (simp add: d1 deleteCalls_answered nm)
  moreover have "apps (snd (clientDelete now cl1 r)) = apps (snd (clientDelete now cl a))"
    unfolding d0 by (simp add: d1 same so')
  ultimately show "\<exists>cl2. deleteRetrieved now cl1 r = ((10, None), cl2) \<and>
               deleteCalls cl2 = deleteCalls cl1 @ [Name a] \<and>
               apps cl2 = apps (snd (clientDelete now cl a))"
    by blast
qed

lemma set_map_filter_Some:
  "set (List.map_filter f xs) = {y. \<exists>x\<in>set xs. f x = Some y}"
  by (induction xs) (auto simp: map_filter_simps split: option.splits)

lemma sorted_before:
  fixes f :: "'a \<Rightarrow> int"
  shows "sorted (map f (pre @ e # post)) \<Longrightarrow> x \<in> set (pre @ e # post) \<Longrightarrow> f x < f e \<Longrightarrow>
         x \<in> set pre"
  by (auto simp: sorted_append)

lemma appMap_lookup:
  "distinct (map Name as) \<Longrightarrow> a \<in> set as \<Longrightarrow>
   map_of (rev (map (\<lambda>app. (Name app, app)) as)) (Name a) = Some a"
proof -
  assume d: "distinct (map Name as)" and a: "a \<in> set as"
  have "map fst (rev (map (\<lambda>app. (Name app, app)) as)) = rev (map Name as)"
    by (simp add: rev_map o_def)
  then have "distinct (map fst (rev (map (\<lambda>app. (Name app, app)) as)))"
    using d by simp
  then show ?thesis
    using a by (simp add: map_of_eq_Some_iff)
qed

lemma performReverseDeletion_effect:
  fixes cl :: "'s Cluster" and appset :: "('s, 'z) ApplicationSet_scheme"
  assumes st: "Strategy appset = Some st" and rs: "RollingSync st = Some steps"
    and names: "distinct (map Name currentApps)"
    and m: "m = snd (buildAppDependencyList appset currentApps)"
    and order: "set (rangeOrder (stepKeys m currentApps)) = set (stepKeys m currentApps)"
    and quiet: "quiet cl"
    and res: "performReverseDeletion rangeOrder now cl appset currentApps = ((requeue, err), cl')"
  shows "((requeue, err) = (10, None) \<or> (requeue, err) = (0, None)
            \<or> (requeue, err) = (0, Some notDeletedInTime))
       \<and> (((requeue, err) = (0, None)) =
            (\<forall>a\<in>set currentApps. m (Name a) \<noteq> None \<longrightarrow> \<not> live cl a))
       \<and> (requeue = 10 \<longrightarrow>
            (\<exists>a\<in>set currentApps. firstToDelete cl m currentApps a \<and> \<not> overdue now cl a \<and>
               deleteCalls cl' = deleteCalls cl @ [Name a] \<and>
               apps cl' = apps (snd (clientDelete now cl a))))
       \<and> (requeue = 0 \<longrightarrow> deleteCalls cl' = deleteCalls cl \<and> apps cl' = apps cl)
       \<and> (err \<noteq> None \<longrightarrow>
            (\<exists>a\<in>set currentApps. firstToDelete cl m currentApps a \<and> overdue now cl a))"
proof -
  define L where "L = int (length steps)"
  define appMap where "appMap = map_of (rev (map (\<lambda>app. (Name app, app)) currentApps))"
  define entries where "entries = List.map_filter
     (\<lambda>appName. map_option (\<lambda>appStep. \<lparr>AppName = appName, StepNo = L - appStep - 1\<rparr>) (m appName))
     (rangeOrder (stepKeys m currentApps))"
  define walk where "walk = sort_key StepNo entries"
  have run: "reverseDeletionLoop now appMap cl walk = ((requeue, err), cl')"
    using res
    by (simp add: performReverseDeletion_def st rs Let_def m L_def appMap_def entries_def walk_def)
  have sorted: "sorted (map StepNo walk)"
    by (simp add: walk_def)
  have members: "e \<in> set walk \<longleftrightarrow>
      (\<exists>a\<in>set currentApps. \<exists>s. m (Name a) = Some s \<and> e = \<lparr>AppName = Name a, StepNo = L - s - 1\<rparr>)"
    for e
  proof -
    have keys: "set (rangeOrder (stepKeys m currentApps))
                = {n. n \<in> Name ` set currentApps \<and> m n \<noteq> None}"
      unfolding order by (auto simp: stepKeys_def)
    show ?thesis
      unfolding walk_def entries_def by (auto simp: set_map_filter_Some keys)
  qed
  have lookup: "appMap (Name a) = Some a" if "a \<in> set currentApps" for a
    unfolding appMap_def by (rule appMap_lookup [OF names that])
  show ?thesis
  proof (cases "\<forall>a\<in>set currentApps. m (Name a) \<noteq> None \<longrightarrow> \<not> live cl a")
    case True
    have "\<forall>e\<in>set walk. \<exists>a. appMap (AppName e) = Some a \<and> \<not> live cl a"
    proof
      fix e assume "e \<in> set walk"
      then obtain a s where a: "a \<in> set currentApps" "m (Name a) = Some s"
          "e = \<lparr>AppName = Name a, StepNo = L - s - 1\<rparr>"
        using members by blast
      then show "\<exists>a. appMap (AppName e) = Some a \<and> \<not> live cl a"
        using lookup [OF a(1)] True by auto
    qed
    from loop_none_live [OF quiet this, of now] run
    have r: "requeue = 0" "err = None" "apps cl' = apps cl" "deleteCalls cl' = deleteCalls cl"
      by auto
    show ?thesis
      using True r by simp
  next
    case False
    then obtain a0 s0 where a0: "a0 \<in> set currentApps" "m (Name a0) = Some s0" "live cl a0"
      by auto
    define P where "P e = (\<exists>a. appMap (AppName e) = Some a \<and> live cl a)" for e :: deleteInOrder
    have "\<lparr>AppName = Name a0, StepNo = L - s0 - 1\<rparr> \<in> set walk"
      using members a0 by blast
    moreover have "P \<lparr>AppName = Name a0, StepNo = L - s0 - 1\<rparr>"
      using lookup [OF a0(1)] a0(3) by (simp add: P_def)
    ultimately have "\<exists>e\<in>set walk. P e"
      by blast
    from split_list_first_prop [OF this] obtain pre e post where
      w: "walk = pre @ e # post" and pe: "P e" and pre: "\<forall>y\<in>set pre. \<not> P y"
      by blast
    have "e \<in> set walk"
      using w by simp
    then obtain a s where a: "a \<in> set currentApps" "m (Name a) = Some s"
        "e = \<lparr>AppName = Name a, StepNo = L - s - 1\<rparr>"
      using members by blast
    have ma: "appMap (AppName e) = Some a"
      using lookup [OF a(1)] a(3) by simp
    have la: "live cl a"
      using pe ma by (simp add: P_def)
    then obtain r where r: "findApp cl a = Some r"
      by (auto simp: live_def)
    have gone: "\<forall>y\<in>set pre. \<exists>b. appMap (AppName y) = Some b \<and> \<not> live cl b"
    proof
      fix y assume y: "y \<in> set pre"
      then have "y \<in> set walk"
        using w by simp
      then obtain b sb where b: "b \<in> set currentApps" "m (Name b) = Some sb"
          "y = \<lparr>AppName = Name b, StepNo = L - sb - 1\<rparr>"
        using members by blast
      have "appMap (AppName y) = Some b"
        using lookup [OF b(1)] b(3) by simp
      then show "\<exists>b. appMap (AppName y) = Some b \<and> \<not> live cl b"
        using pre y by (auto simp: P_def)
    qed
    from loop_first_live [OF quiet gone ma r, of now post] run w obtain cl1 where
      c1: "deleteRetrieved now cl1 r = ((requeue, err), cl')" "apps cl1 = apps cl"
          "deleteCalls cl1 = deleteCalls cl" "quiet cl1"
      by auto
    have first: "firstToDelete cl m currentApps a"
      unfolding firstToDelete_def
    proof (intro conjI ballI impI)
      show "m (Name a) \<noteq> None"
        using a(2) by simp
      show "live cl a"
        by (rule la)
    next
      fix b assume b: "b \<in> set currentApps" and later: "laterStep m a b"
      from later a(2) obtain sb where sb: "m (Name b) = Some sb" "s < sb"
        by (auto simp: laterStep_def split: option.splits)
      let ?x = "\<lparr>AppName = Name b, StepNo = L - sb - 1\<rparr>"
      have "?x \<in> set walk"
        using members b sb(1) by blast
      then have "?x \<in> set (pre @ e # post)"
        using w by simp
      moreover have "StepNo ?x < StepNo e"
        using sb(2) a(3) by simp
      moreover have "sorted (map StepNo (pre @ e # post))"
        using sorted w by simp
      ultimately have "?x \<in> set pre"
        by (rule sorted_before [rotated])
      then have "\<not> P ?x"
        using pre by blast
      then show "\<not> live cl b"
        using lookup [OF b] by (simp add: P_def)
    qed
    show ?thesis
    proof (cases "overdue now cl a")
      case True
      from deleteRetrieved_quiet(1) [OF c1(4) quiet r c1(2) True] c1(1)
      have e: "requeue = 0" "err = Some notDeletedInTime" "cl' = cl1"
        by auto
      have one: "\<exists>a\<in>set currentApps. firstToDelete cl m currentApps a \<and> overdue now cl a"
        using a(1) first True by blast
      have two: "\<not> (\<forall>a\<in>set currentApps. m (Name a) \<noteq> None \<longrightarrow> \<not> live cl a)"
        by (rule False)
      show ?thesis
        using e one two c1(2,3) by simp
    next
      case fresh: False
      from deleteRetrieved_quiet(2) [OF c1(4) quiet r c1(2) fresh] c1(1)
      have e: "requeue = 10" "err = None" "deleteCalls cl' = deleteCalls cl1 @ [Name a]"
          "apps cl' = apps (snd (clientDelete now cl a))"
        by auto
      have one: "\<exists>a\<in>set currentApps. firstToDelete cl m currentApps a \<and> \<not> overdue now cl a \<and>
               deleteCalls cl' = deleteCalls cl @ [Name a] \<and>
               apps cl' = apps (snd (clientDelete now cl a))"
        using a(1) first fresh e c1(3) by auto
      have two: "\<not> (\<forall>a\<in>set currentApps. m (Name a) \<noteq> None \<longrightarrow> \<not> live cl a)"
        by (rule False)
      show ?thesis
        using e(1,2) one two by simp
    qed
  qed
qed


lemma appSet_answered [simp]: "appSet (answered c cl) = appSet cl"
  by (simp add: answered_def)

lemma faults_answered [simp]: "faults (answered c cl) = faults cl"
  by (simp add: answered_def)

lemma overdue_answered [simp]: "overdue now (answered c cl) a = overdue now cl a"
  by (simp add: overdue_def)

lemma firstToDelete_answered [simp]:
  "firstToDelete (answered c cl) m as a = firstToDelete cl m as a"
  by (simp add: firstToDelete_def)

lemma clientDelete_frame:
  "faults (snd (clientDelete now cl a)) = faults cl \<and> appSet (snd (clientDelete now cl a)) = appSet cl"
  by (simp add: clientDelete_def split: option.splits)

lemma deleteRetrieved_frame:
  "faults (snd (deleteRetrieved now cl a)) = faults cl \<and>
   appSet (snd (deleteRetrieved now cl a)) = appSet cl"
  using clientDelete_frame [of now cl a]
  by (auto simp: deleteRetrieved_def split: prod.splits option.splits)

lemma clientGet_frame:
  "faults (snd (clientGet cl k)) = faults cl \<and> appSet (snd (clientGet cl k)) = appSet cl"
  by (simp add: clientGet_def split: option.splits)

lemma reverseDeletionLoop_frame:
  "faults (snd (reverseDeletionLoop now appMap cl walk)) = faults cl \<and>
   appSet (snd (reverseDeletionLoop now appMap cl walk)) = appSet cl"
proof (induction walk arbitrary: cl)
  case Nil
  show ?case by simp
next
  case (Cons e walk)
  show ?case
  proof (cases "appMap (AppName e)")
    case None
    then show ?thesis by simp
  next
    case (Some a)
    obtain g cl1 where g: "clientGet cl a = (g, cl1)"
      by (cases "clientGet cl a") auto
    have f1: "faults cl1 = faults cl" "appSet cl1 = appSet cl"
      using clientGet_frame [of cl a] g by auto
    show ?thesis
      using Some g f1 Cons.IH [of cl1] deleteRetrieved_frame [of now cl1]
      by (auto split: sum.splits)
  qed
qed

lemma performReverseDeletion_frame:
  "faults (snd (performReverseDeletion rangeOrder now cl appset currentApps)) = faults cl \<and>
   appSet (snd (performReverseDeletion rangeOrder now cl appset currentApps)) = appSet cl"
  using reverseDeletionLoop_frame
  by (auto simp: performReverseDeletion_def Let_def split: option.splits)

lemma apps_clientDelete_answered:
  "quiet cl \<Longrightarrow>
   apps (snd (clientDelete now (answered c cl) a)) = apps (snd (clientDelete now cl a))"
  by (simp add: clientDelete_def quiet_injected split: option.splits)

lemma getCurrentApplications_quiet:
  "quiet cl \<Longrightarrow>
   getCurrentApplications cl applicationSet =
     (Inr (childrenOf cl applicationSet), answered ListCall cl)"
  by (simp add: getCurrentApplications_def quiet_injected childrenOf_def isChildOf_def [abs_def])

lemma removeFinalizerAndUpdate_effect:
  assumes "quiet cl" and "appSet cl = Some stored" and "sameObject stored applicationSetInfo"
  shows "\<exists>cl'. removeFinalizerAndUpdate cl applicationSetInfo = ((0, None), cl') \<and>
           apps cl' = apps cl \<and> deleteCalls cl' = deleteCalls cl \<and> finalizerRemoved cl'"
  using assms
  by (simp add: removeFinalizerAndUpdate_def clientUpdateAppSet_def quiet_injected
      RemoveFinalizer_def sameObject_def finalizerRemoved_def deleteCalls_answered Let_def)

lemma live_stored: "a \<in> set (apps cl) \<Longrightarrow> live cl a"
  by (auto simp: live_def findApp_def find_None_iff sameObject_def)

lemma buildAppDependencyList_Nil: "snd (buildAppDependencyList appset []) = Map.empty"
  by (simp add: buildAppDependencyList_def Let_def)

lemma performReverseDeletion_Nil:
  "Strategy appset = Some st \<Longrightarrow> RollingSync st = Some steps \<Longrightarrow>
   performReverseDeletion rangeOrder now cl appset [] = ((0, None), cl)"
  by (simp add: performReverseDeletion_def Let_def buildAppDependencyList_Nil map_filter_def)

lemma objectKey_inj:
  "distinct (map objectKey xs) \<Longrightarrow> x \<in> set xs \<Longrightarrow> y \<in> set xs \<Longrightarrow>
   objectKey x = objectKey y \<Longrightarrow> x = y"
  by (auto simp: distinct_map dest: inj_onD)

lemma replaceApp_distinct:
  assumes d: "distinct (map objectKey xs)" and a: "a \<in> set xs"
    and k: "objectKey obj = objectKey a"
  shows "replaceApp obj xs = map (\<lambda>x. if x = a then obj else x) xs"
proof -
  have "sameObject x obj \<longleftrightarrow> x = a" if "x \<in> set xs" for x
  proof
    assume "sameObject x obj"
    then have "objectKey x = objectKey a"
      using k by (simp add: sameObject_def objectKey_def)
    then show "x = a"
      by (rule objectKey_inj [OF d that a])
  next
    assume "x = a"
    then show "sameObject x obj"
      using k by (simp add: sameObject_def objectKey_def)
  qed
  then show ?thesis
    unfolding replaceApp_def by (intro map_cong) auto
qed

lemma removeOwnerReferencesLoop_effect:
  "quiet cl \<Longrightarrow> distinct (map objectKey (apps cl)) \<Longrightarrow> set as \<subseteq> set (apps cl) \<Longrightarrow>
   distinct as \<Longrightarrow>
   \<exists>cl'. removeOwnerReferencesLoop cl as = (None, cl') \<and>
         apps cl' = map (\<lambda>b. if b \<in> set as then b\<lparr>OwnerReferences := []\<rparr> else b) (apps cl) \<and>
         appSet cl' = appSet cl \<and> quiet cl' \<and> deleteCalls cl' = deleteCalls cl"
proof (induction as arbitrary: cl)
  case Nil
  then show ?case by simp
next
  case (Cons a as)
  let ?obj = "a\<lparr>OwnerReferences := []\<rparr>"
  let ?f = "\<lambda>x. if x = a then ?obj else x"
  let ?cl1 = "(answered (UpdateCall (Name ?obj)) cl)\<lparr>apps := map ?f (apps cl)\<rparr>"
  have a: "a \<in> set (apps cl)"
    using Cons.prems(3) by simp
  have k: "objectKey ?obj = objectKey a"
    by (simp add: objectKey_def)
  have found: "findApp cl ?obj \<noteq> None"
    using a by (auto simp: findApp_def find_None_iff sameObject_def)
  have rep: "replaceApp ?obj (apps cl) = map ?f (apps cl)"
    by (rule replaceApp_distinct [OF Cons.prems(2) a k])
  have upd: "clientUpdate cl ?obj = (None, ?cl1)"
    using found by (auto simp: clientUpdate_def quiet_injected [OF Cons.prems(1)] rep)
  have q1: "quiet ?cl1"
    using Cons.prems(1) by (simp add: quiet_def answered_def)
  have keys: "map objectKey (apps ?cl1) = map objectKey (apps cl)"
    by (simp add: objectKey_def o_def)
  have d1: "distinct (map objectKey (apps ?cl1))"
    unfolding keys by (rule Cons.prems(2))
  have sub: "set as \<subseteq> set (apps ?cl1)"
  proof
    fix b assume b: "b \<in> set as"
    then have "b \<noteq> a" "b \<in> set (apps cl)"
      using Cons.prems(3,4) by auto
    then show "b \<in> set (apps ?cl1)"
      by (auto simp: image_iff)
  qed
  have das: "distinct as"
    using Cons.prems(4) by simp
  from Cons.IH [OF q1 d1 sub das] obtain cl' where
    r: "removeOwnerReferencesLoop ?cl1 as = (None, cl')"
    and e: "apps cl' = map (\<lambda>b. if b \<in> set as then b\<lparr>OwnerReferences := []\<rparr> else b) (apps ?cl1)"
           "appSet cl' = appSet ?cl1" "quiet cl'" "deleteCalls cl' = deleteCalls ?cl1"
    by blast
  have notin: "?obj \<notin> set as"
  proof
    assume "?obj \<in> set as"
    then have "?obj \<in> set (apps cl)"
      using Cons.prems(3) by auto
    then have "?obj = a"
      by (rule objectKey_inj [OF Cons.prems(2) _ a k])
    then show False
      using \<open>?obj \<in> set as\<close> Cons.prems(4) by simp
  qed
  have comp: "map (\<lambda>b. if b \<in> set as then b\<lparr>OwnerReferences := []\<rparr> else b) (map ?f (apps cl))
              = map (\<lambda>b. if b \<in> set (a # as) then b\<lparr>OwnerReferences := []\<rparr> else b) (apps cl)"
    using notin by (auto simp: o_def)
  have "removeOwnerReferencesLoop cl (a # as) = (None, cl')"
    using upd r by simp
  moreover have "apps cl' = map (\<lambda>b. if b \<in> set (a # as) then b\<lparr>OwnerReferences := []\<rparr> else b) (apps cl)"
    using e(1) comp by simp
  moreover have "appSet cl' = appSet cl" "deleteCalls cl' = deleteCalls cl"
    using e(2,4) by (simp_all add: deleteCalls_answered)
  ultimately show ?case
    using e(3) by blast
qed

text \<open>
  C4 (as amended). The reverse deletion of one reconcile, in a store without faults whose ApplicationSet has
  the Reverse deletion order and whose children have distinct names. It ends in one of three
  ways. It deletes one child and asks for a requeue after 10 seconds: the child is assigned to
  a step, no child of a later step is left, it was not marked for deletion more than two
  minutes ago, it is the only child given to Delete, and the ApplicationSet is not touched. Or
  it returns the error of a child that stays marked for more than two minutes, and changes
  nothing. Or it returns no requeue and no error, and then the resources finalizer is removed
  from the ApplicationSet and no child is touched: this happens exactly when no child in the
  store is assigned to a step, so children that no step selects are still there.
\<close>

theorem C4_reverse_deletion_one_child_per_pass:
  fixes cl :: "'s Cluster" and applicationSetInfo :: "'s ApplicationSet"
  assumes rev: "isProgressiveSyncDeletionOrderReversed applicationSetInfo"
    and quiet: "quiet cl"
    and parent: "appSet cl = Some stored \<and> sameObject stored applicationSetInfo"
    and cur: "current = childrenOf cl applicationSetInfo"
    and names: "distinct (map Name current)"
    and m: "m = snd (buildAppDependencyList applicationSetInfo current)"
    and order: "set (rangeOrder (stepKeys m current)) = set (stepKeys m current)"
    and res: "reverseDeletionStage rangeOrder now cl applicationSetInfo = ((requeue, err), cl')"
  shows "((requeue, err) = (10, None) \<or> (requeue, err) = (0, None)
            \<or> (requeue, err) = (0, Some notDeletedInTime))
       \<and> (((requeue, err) = (0, None)) = (\<forall>a\<in>set current. m (Name a) = None))
       \<and> ((requeue, err) = (0, None) \<longrightarrow>
            finalizerRemoved cl' \<and> apps cl' = apps cl \<and> deleteCalls cl' = deleteCalls cl)
       \<and> (requeue = 10 \<longrightarrow>
            appSet cl' = appSet cl \<and>
            (\<exists>a\<in>set current. firstToDelete cl m current a \<and> \<not> overdue now cl a \<and>
               deleteCalls cl' = deleteCalls cl @ [Name a] \<and>
               apps cl' = apps (snd (clientDelete now cl a))))
       \<and> (err \<noteq> None \<longrightarrow>
            appSet cl' = appSet cl \<and> apps cl' = apps cl \<and> deleteCalls cl' = deleteCalls cl \<and>
            (\<exists>a\<in>set current. firstToDelete cl m current a \<and> overdue now cl a))"
proof -
  let ?cl1 = "answered ListCall cl"
  obtain st steps where st: "Strategy applicationSetInfo = Some st" "RollingSync st = Some steps"
    using rev
    by (auto simp: isProgressiveSyncDeletionOrderReversed_def
        progressiveSyncsRollingSyncStrategyEnabled_def isRollingSyncStrategy_def
        split: option.splits)
  obtain rq e cl2 where pass:
    "performReverseDeletion rangeOrder now ?cl1 applicationSetInfo current = ((rq, e), cl2)"
    by (metis prod.collapse)
  have q1: "quiet ?cl1"
    using quiet by simp
  note eff = performReverseDeletion_effect [OF st names m order q1 pass]
  have fr: "faults cl2 = faults cl" "appSet cl2 = appSet cl"
    using performReverseDeletion_frame [of rangeOrder now ?cl1 applicationSetInfo current] pass
    by auto
  have q2: "quiet cl2"
    using quiet fr(1) by (simp add: quiet_def)
  have alive: "live cl a" if "a \<in> set current" for a
    using that cur by (auto simp: childrenOf_def intro: live_stored)
  have none: "(\<forall>a\<in>set current. m (Name a) \<noteq> None \<longrightarrow> \<not> live ?cl1 a)
              = (\<forall>a\<in>set current. m (Name a) = None)"
    using alive by auto
  have stage: "reverseDeletionStage rangeOrder now cl applicationSetInfo =
      (case e of
         Some err \<Rightarrow> ((0, Some err), cl2)
       | None \<Rightarrow> if rq > 0 then ((rq, None), cl2)
                 else removeFinalizerAndUpdate cl2 applicationSetInfo)"
    by (simp add: reverseDeletionStage_def rev getCurrentApplications_quiet [OF quiet]
        cur [symmetric] pass split: option.splits)
  from eff have tri: "(rq, e) = (10, None) \<or> (rq, e) = (0, None) \<or> (rq, e) = (0, Some notDeletedInTime)"
    by blast
  then consider (del) "rq = 10" "e = None" | (drained) "rq = 0" "e = None"
    | (late) "rq = 0" "e = Some notDeletedInTime"
    by auto
  then show ?thesis
  proof cases
    case del
    have r: "requeue = 10" "err = None" "cl' = cl2"
      using res stage del by auto
    have some: "\<not> (\<forall>a\<in>set current. m (Name a) = None)"
      using eff del none by auto
    have one: "\<exists>a\<in>set current. firstToDelete cl m current a \<and> \<not> overdue now cl a \<and>
               deleteCalls cl' = deleteCalls cl @ [Name a] \<and>
               apps cl' = apps (snd (clientDelete now cl a))"
      using eff del r(3) quiet
      by (simp add: deleteCalls_answered apps_clientDelete_answered)
    show ?thesis
      using r(1,2) some one fr(2) r(3) by simp
  next
    case drained
    have all: "\<forall>a\<in>set current. m (Name a) = None"
      using eff drained none by auto
    have same: "deleteCalls cl2 = deleteCalls cl" "apps cl2 = apps cl"
      using eff drained by (simp_all add: deleteCalls_answered)
    have p2: "appSet cl2 = Some stored"
      using parent fr(2) by simp
    from removeFinalizerAndUpdate_effect [OF q2 p2 conjunct2 [OF parent]] obtain cl3 where
      u: "removeFinalizerAndUpdate cl2 applicationSetInfo = ((0, None), cl3)"
         "apps cl3 = apps cl2" "deleteCalls cl3 = deleteCalls cl2" "finalizerRemoved cl3"
      by blast
    have r: "requeue = 0" "err = None" "cl' = cl3"
      using res stage drained u(1) by auto
    show ?thesis
      using r all u(2,3,4) same by simp
  next
    case late
    have r: "requeue = 0" "err = Some notDeletedInTime" "cl' = cl2"
      using res stage late by auto
    have some: "\<not> (\<forall>a\<in>set current. m (Name a) = None)"
      using eff late none by auto
    have same: "deleteCalls cl2 = deleteCalls cl" "apps cl2 = apps cl"
      using eff late by (simp_all add: deleteCalls_answered)
    have one: "\<exists>a\<in>set current. firstToDelete cl m current a \<and> overdue now cl a"
      using eff late by simp
    show ?thesis
      using r some one same fr(2) by simp
  qed
qed

text \<open>
  With a child in each of two steps the child of the second step is deleted first.
\<close>

theorem C4_reverse_deletion_witness:
  "isProgressiveSyncDeletionOrderReversed (deletedAppSet reverseOrder)
   \<and> quiet twoStepCluster
   \<and> childrenOf twoStepCluster (deletedAppSet reverseOrder) = [devApp, prodApp]
   \<and> fst (reverseDeletionStage listOrder 5 twoStepCluster (deletedAppSet reverseOrder)) = (10, None)
   \<and> deleteCalls (snd (reverseDeletionStage listOrder 5 twoStepCluster
         (deletedAppSet reverseOrder))) = [''prod-app'']
   \<and> map Name (apps (snd (reverseDeletionStage listOrder 5 twoStepCluster
         (deletedAppSet reverseOrder)))) = [''dev-app'']"
proof -
  let ?info = "deletedAppSet reverseOrder"
  let ?R = "reverseDeletionStage listOrder 5 twoStepCluster ?info"
  let ?m = "snd (buildAppDependencyList ?info [devApp, prodApp])"
  have rev: "isProgressiveSyncDeletionOrderReversed ?info"
    by (simp add: isProgressiveSyncDeletionOrderReversed_def strategy_defs EqualFold_def
        lowerASCII_def object_defs)
  have quiet: "quiet twoStepCluster"
    by (simp add: quiet_def twoStepCluster_def newCluster_def noFaults_def)
  have parent: "appSet twoStepCluster = Some ?info \<and> sameObject ?info ?info"
    by (simp add: twoStepCluster_def newCluster_def sameObject_def)
  have cur: "[devApp, prodApp] = childrenOf twoStepCluster ?info"
    by (simp add: childrenOf_def isChildOf_def appControllerIndexer_def twoStepCluster_def
        object_defs)
  have names: "distinct (map Name [devApp, prodApp])"
    by (simp add: object_defs)
  have order: "set (listOrder (stepKeys ?m [devApp, prodApp])) = set (stepKeys ?m [devApp, prodApp])"
    by (simp add: listOrder_def)
  have res: "?R = ((fst (fst ?R), snd (fst ?R)), snd ?R)"
    by simp
  have mdev: "?m (Name devApp) = Some 0" and mprod: "?m (Name prodApp) = Some 1"
    by (simp_all add: buildAppDependencyList_def strategy_defs Let_def labelMatchedExpression_def
        object_defs)
  have ldev: "live twoStepCluster devApp" and lprod: "live twoStepCluster prodApp"
    by (simp_all add: live_def findApp_def sameObject_def twoStepCluster_def object_defs)
  have odev: "\<not> overdue 5 twoStepCluster devApp" and oprod: "\<not> overdue 5 twoStepCluster prodApp"
    by (simp_all add: overdue_def findApp_def sameObject_def twoStepCluster_def object_defs)
  have notdev: "\<not> firstToDelete twoStepCluster ?m [devApp, prodApp] devApp"
    using lprod by (simp add: firstToDelete_def laterStep_def mdev mprod)
  have calls: "deleteCalls twoStepCluster = []"
    by (simp add: deleteCalls_def twoStepCluster_def newCluster_def)
  have left: "map Name (apps (snd (clientDelete 5 twoStepCluster prodApp))) = [''dev-app'']"
    by (simp add: clientDelete_def injected_def answered_def findApp_def sameObject_def
        twoStepCluster_def object_defs)
  note T = C4_reverse_deletion_one_child_per_pass [OF rev quiet parent cur names refl order res]
  note T1 = conjunct1 [OF T]
  note T2 = conjunct1 [OF conjunct2 [OF T]]
  note T4 = conjunct1 [OF conjunct2 [OF conjunct2 [OF conjunct2 [OF T]]]]
  note T5 = conjunct2 [OF conjunct2 [OF conjunct2 [OF conjunct2 [OF T]]]]
  have tri: "fst ?R = (10, None) \<or> fst ?R = (0, None) \<or> fst ?R = (0, Some notDeletedInTime)"
    using T1 by (auto simp: prod_eq_iff)
  have drained: "fst ?R \<noteq> (0, None)"
    using T2 mdev by (auto simp: prod_eq_iff)
  have noerr: "snd (fst ?R) = None"
    using T5 odev oprod by auto
  have ten: "fst ?R = (10, None)"
    using tri drained noerr by (auto simp: prod_eq_iff)
  then have "fst (fst ?R) = 10"
    by simp
  with T4 obtain a where a: "a \<in> set [devApp, prodApp]"
      "firstToDelete twoStepCluster ?m [devApp, prodApp] a"
      "deleteCalls (snd ?R) = deleteCalls twoStepCluster @ [Name a]"
      "apps (snd ?R) = apps (snd (clientDelete 5 twoStepCluster a))"
    by blast
  have "a = prodApp"
    using a(1,2) notdev by auto
  then have "deleteCalls (snd ?R) = [''prod-app'']" "map Name (apps (snd ?R)) = [''dev-app'']"
    using a(3,4) calls left by (simp_all add: prodApp_def ownedApp_def newApplication_def)
  then show ?thesis
    using rev quiet cur ten by simp
qed

text \<open>
  A child that no step selects is not deleted: the reverse deletion returns no requeue, the
  finalizer is removed, and the child is still in the store.
\<close>

theorem C4_unassigned_child_counterexample:
  "fst (reverseDeletionStage listOrder 5
          (newCluster [strayApp] (Some (deletedAppSet reverseOrder)) noFaults)
          (deletedAppSet reverseOrder)) = (0, None)
   \<and> map Name (apps (snd (reverseDeletionStage listOrder 5
          (newCluster [strayApp] (Some (deletedAppSet reverseOrder)) noFaults)
          (deletedAppSet reverseOrder)))) = [''stray'']
   \<and> map_option Finalizers (appSet (snd (reverseDeletionStage listOrder 5
          (newCluster [strayApp] (Some (deletedAppSet reverseOrder)) noFaults)
          (deletedAppSet reverseOrder)))) = Some [''keep'']"
  by (simp add: reverseDeletionStage_def isProgressiveSyncDeletionOrderReversed_def strategy_defs
      EqualFold_def lowerASCII_def getCurrentApplications_def injected_def answered_def
      appControllerIndexer_def performReverseDeletion_def buildAppDependencyList_def Let_def
      stepKeys_def listOrder_def map_filter_def removeFinalizerAndUpdate_def
      clientUpdateAppSet_def RemoveFinalizer_def sameObject_def object_defs)

lemma clientUpdate_frame:
  "deleteCalls (snd (clientUpdate cl obj)) = deleteCalls cl \<and>
   appSet (snd (clientUpdate cl obj)) = appSet cl \<and>
   faults (snd (clientUpdate cl obj)) = faults cl"
  by (simp add: clientUpdate_def deleteCalls_answered split: option.splits)

lemma removeOwnerReferencesLoop_frame:
  "deleteCalls (snd (removeOwnerReferencesLoop cl as)) = deleteCalls cl \<and>
   appSet (snd (removeOwnerReferencesLoop cl as)) = appSet cl \<and>
   faults (snd (removeOwnerReferencesLoop cl as)) = faults cl"
proof (induction as arbitrary: cl)
  case Nil
  show ?case by simp
next
  case (Cons a as)
  obtain e cl1 where u: "clientUpdate cl (a\<lparr>OwnerReferences := []\<rparr>) = (e, cl1)"
    by (cases "clientUpdate cl (a\<lparr>OwnerReferences := []\<rparr>)") auto
  have f: "deleteCalls cl1 = deleteCalls cl" "appSet cl1 = appSet cl" "faults cl1 = faults cl"
    using clientUpdate_frame [of cl "a\<lparr>OwnerReferences := []\<rparr>"] u by simp_all
  show ?case
    using u f Cons.IH [of cl1] by (cases e) simp_all
qed

lemma getCurrentApplications_frame:
  "snd (getCurrentApplications cl p) = answered ListCall cl"
  by (simp add: getCurrentApplications_def split: option.splits)

lemma getCurrentApplications_ok:
  "getCurrentApplications cl p = (Inr current, cl1) \<Longrightarrow> current = childrenOf cl p"
  by (auto simp: getCurrentApplications_def childrenOf_def isChildOf_def [abs_def]
      split: option.splits)

lemma removeOwnerReferencesLoop_success:
  "removeOwnerReferencesLoop cl as = (None, cl') \<Longrightarrow>
   distinct (map objectKey (apps cl)) \<Longrightarrow> set as \<subseteq> set (apps cl) \<Longrightarrow> distinct as \<Longrightarrow>
   apps cl' = map (\<lambda>b. if b \<in> set as then b\<lparr>OwnerReferences := []\<rparr> else b) (apps cl)"
proof (induction as arbitrary: cl)
  case Nil
  then show ?case by simp
next
  case (Cons a as)
  let ?obj = "a\<lparr>OwnerReferences := []\<rparr>"
  let ?f = "\<lambda>x. if x = a then ?obj else x"
  let ?cl1 = "(answered (UpdateCall (Name ?obj)) cl)\<lparr>apps := map ?f (apps cl)\<rparr>"
  have a: "a \<in> set (apps cl)"
    using Cons.prems(3) by simp
  have k: "objectKey ?obj = objectKey a"
    by (simp add: objectKey_def)
  have found: "findApp cl ?obj \<noteq> None"
    using a by (auto simp: findApp_def find_None_iff sameObject_def)
  have rep: "replaceApp ?obj (apps cl) = map ?f (apps cl)"
    by (rule replaceApp_distinct [OF Cons.prems(2) a k])
  have ok: "injected cl = None"
  proof (rule ccontr)
    assume "injected cl \<noteq> None"
    then have "fst (removeOwnerReferencesLoop cl (a # as)) \<noteq> None"
      by (auto simp: clientUpdate_def)
    then show False
      using Cons.prems(1) by simp
  qed
  have upd: "clientUpdate cl ?obj = (None, ?cl1)"
    using found by (auto simp: clientUpdate_def ok rep)
  have r: "removeOwnerReferencesLoop ?cl1 as = (None, cl')"
    using Cons.prems(1) upd by simp
  have keys: "map objectKey (apps ?cl1) = map objectKey (apps cl)"
    by (simp add: objectKey_def o_def)
  have d1: "distinct (map objectKey (apps ?cl1))"
    unfolding keys by (rule Cons.prems(2))
  have sub: "set as \<subseteq> set (apps ?cl1)"
  proof
    fix b assume b: "b \<in> set as"
    then have "b \<noteq> a" "b \<in> set (apps cl)"
      using Cons.prems(3,4) by auto
    then show "b \<in> set (apps ?cl1)"
      by (auto simp: image_iff)
  qed
  have das: "distinct as"
    using Cons.prems(4) by simp
  note e = Cons.IH [OF r d1 sub das]
  have notin: "?obj \<notin> set as"
  proof
    assume "?obj \<in> set as"
    then have "?obj \<in> set (apps cl)"
      using Cons.prems(3) by auto
    then have "?obj = a"
      by (rule objectKey_inj [OF Cons.prems(2) _ a k])
    then show False
      using \<open>?obj \<in> set as\<close> Cons.prems(4) by simp
  qed
  have comp: "map (\<lambda>b. if b \<in> set as then b\<lparr>OwnerReferences := []\<rparr> else b) (map ?f (apps cl))
              = map (\<lambda>b. if b \<in> set (a # as) then b\<lparr>OwnerReferences := []\<rparr> else b) (apps cl)"
    using notin by (auto simp: o_def)
  show ?case
    using e comp by simp
qed

lemma clientUpdateAppSet_cases:
  "clientUpdateAppSet cl obj = (e, cl') \<Longrightarrow>
   deleteCalls cl' = deleteCalls cl \<and> apps cl' = apps cl \<and>
   (e \<noteq> None \<longrightarrow> appSet cl' = appSet cl) \<and>
   (e = None \<longrightarrow> (case appSet cl' of None \<Rightarrow> True
                   | Some written \<Rightarrow> Finalizers written = Finalizers obj))"
  by (auto simp: clientUpdateAppSet_def deleteCalls_answered Let_def
      split: option.splits if_splits)

lemma removeFinalizerAndUpdate_cases:
  assumes "removeFinalizerAndUpdate cl applicationSetInfo = ((requeue, err), cl')"
  shows "requeue = 0 \<and> deleteCalls cl' = deleteCalls cl \<and> apps cl' = apps cl \<and>
         (err \<noteq> None \<longrightarrow> appSet cl' = appSet cl) \<and> (err = None \<longrightarrow> finalizerRemoved cl')"
proof -
  obtain e cl1 where u:
    "clientUpdateAppSet cl (RemoveFinalizer applicationSetInfo ResourcesFinalizerName) = (e, cl1)"
    by (cases "clientUpdateAppSet cl (RemoveFinalizer applicationSetInfo ResourcesFinalizerName)")
      auto
  have r: "requeue = 0" "err = e" "cl' = cl1"
    using assms u by (auto simp: removeFinalizerAndUpdate_def split: option.splits)
  have "e = None \<longrightarrow> finalizerRemoved cl1"
    using clientUpdateAppSet_cases [OF u]
    by (auto simp: finalizerRemoved_def RemoveFinalizer_def split: option.splits)
  then show ?thesis
    using clientUpdateAppSet_cases [OF u] r by simp
qed

lemma reverseDeletionStage_no_children:
  fixes cl :: "'s Cluster" and applicationSetInfo :: "'s ApplicationSet"
  assumes none: "childrenOf cl applicationSetInfo = []"
    and res: "reverseDeletionStage rangeOrder now cl applicationSetInfo = ((requeue, err), cl')"
  shows "requeue = 0 \<and> deleteCalls cl' = deleteCalls cl \<and> apps cl' = apps cl \<and>
         (err \<noteq> None \<longrightarrow> appSet cl' = appSet cl) \<and> (err = None \<longrightarrow> finalizerRemoved cl')"
proof (cases "isProgressiveSyncDeletionOrderReversed applicationSetInfo")
  case False
  then have "removeFinalizerAndUpdate cl applicationSetInfo = ((requeue, err), cl')"
    using res by (simp add: reverseDeletionStage_def)
  from removeFinalizerAndUpdate_cases [OF this] show ?thesis .
next
  case True
  obtain st steps where st: "Strategy applicationSetInfo = Some st" "RollingSync st = Some steps"
    using True
    by (auto simp: isProgressiveSyncDeletionOrderReversed_def
        progressiveSyncsRollingSyncStrategyEnabled_def isRollingSyncStrategy_def
        split: option.splits)
  let ?cl1 = "answered ListCall cl"
  obtain g cl1 where g: "getCurrentApplications cl applicationSetInfo = (g, cl1)"
    by (cases "getCurrentApplications cl applicationSetInfo") auto
  have cl1: "cl1 = ?cl1"
    using getCurrentApplications_frame [of cl applicationSetInfo] g by simp
  show ?thesis
  proof (cases g)
    case (Inl e)
    have "requeue = 0" "err = Some e" "cl' = ?cl1"
      using res True g Inl cl1 by (auto simp: reverseDeletionStage_def)
    then show ?thesis
      by (simp add: deleteCalls_answered)
  next
    case (Inr current)
    have "current = []"
      using getCurrentApplications_ok [of cl applicationSetInfo current cl1] g Inr none by simp
    then have "removeFinalizerAndUpdate ?cl1 applicationSetInfo = ((requeue, err), cl')"
      using res True g Inr cl1
      by (simp add: reverseDeletionStage_def performReverseDeletion_Nil [OF st])
    from removeFinalizerAndUpdate_cases [OF this] show ?thesis
      by (simp add: deleteCalls_answered)
  qed
qed



lemma removeOwnerReferencesOnDeleteAppSet_frame:
  "deleteCalls (snd (removeOwnerReferencesOnDeleteAppSet cl p)) = deleteCalls cl \<and>
   appSet (snd (removeOwnerReferencesOnDeleteAppSet cl p)) = appSet cl \<and>
   faults (snd (removeOwnerReferencesOnDeleteAppSet cl p)) = faults cl"
proof -
  obtain g cl0 where g: "getCurrentApplications cl p = (g, cl0)"
    by (cases "getCurrentApplications cl p") auto
  have cl0: "cl0 = answered ListCall cl"
    using getCurrentApplications_frame [of cl p] g by simp
  show ?thesis
  proof (cases g)
    case (Inl e)
    then show ?thesis
      using g cl0 by (simp add: removeOwnerReferencesOnDeleteAppSet_def deleteCalls_answered)
  next
    case (Inr as)
    then show ?thesis
      using g cl0 removeOwnerReferencesLoop_frame [of "answered ListCall cl" as]
      by (simp add: removeOwnerReferencesOnDeleteAppSet_def deleteCalls_answered)
  qed
qed

lemma reverseDeletionStage_quiet:
  fixes cl :: "'s Cluster" and applicationSetInfo :: "'s ApplicationSet"
  assumes quiet: "quiet cl" and none: "childrenOf cl applicationSetInfo = []"
    and parent: "appSet cl = Some stored" "sameObject stored applicationSetInfo"
  shows "snd (fst (reverseDeletionStage rangeOrder now cl applicationSetInfo)) = None"
proof (cases "isProgressiveSyncDeletionOrderReversed applicationSetInfo")
  case False
  from removeFinalizerAndUpdate_effect [OF quiet parent] obtain cl3 where
    "removeFinalizerAndUpdate cl applicationSetInfo = ((0, None), cl3)"
    by blast
  then show ?thesis
    using False by (simp add: reverseDeletionStage_def)
next
  case True
  obtain st steps where st: "Strategy applicationSetInfo = Some st" "RollingSync st = Some steps"
    using True
    by (auto simp: isProgressiveSyncDeletionOrderReversed_def
        progressiveSyncsRollingSyncStrategyEnabled_def isRollingSyncStrategy_def
        split: option.splits)
  let ?cl1 = "answered ListCall cl"
  have q1: "quiet ?cl1"
    using quiet by simp
  have p1: "appSet ?cl1 = Some stored"
    using parent(1) by simp
  from removeFinalizerAndUpdate_effect [OF q1 p1 parent(2)] obtain cl3 where
    "removeFinalizerAndUpdate ?cl1 applicationSetInfo = ((0, None), cl3)"
    by blast
  then show ?thesis
    by (simp add: reverseDeletionStage_def True getCurrentApplications_quiet [OF quiet] none
        performReverseDeletion_Nil [OF st])
qed

lemma released_no_children:
  "childrenOf (cl\<lparr>apps := map (\<lambda>b. if isChildOf applicationSet b
                                     then b\<lparr>OwnerReferences := []\<rparr> else b) (apps before)\<rparr>)
     applicationSet = []"
  by (auto simp: childrenOf_def isChildOf_def filter_empty_conv appControllerIndexer_def)






end
